(* ===== verification/Prelude.thy ===== *)
theory Prelude
  imports Main "HOL-Library.Word"
begin

text \<open>
  What every component of the development shares: the widths of the C integer types on the
  LP64 targets the program is built for (x86-64 Linux), the little-endian byte layout of those
  integers, and a byte-addressed memory in which an access to an unmapped address is an explicit
  failure.  The collections \<open>bytes_simps\<close> and \<open>mem_simps\<close> carry the proofs about them.
\<close>

unbundle bit_operations_syntax

named_theorems bytes_simps \<open>splitting integers into bytes and putting them together\<close>
named_theorems mem_simps \<open>loads and stores of the byte memory\<close>

section \<open>Machine integers\<close>

type_synonym byte = "8 word"
type_synonym u16 = "16 word"
type_synonym u32 = "32 word"
type_synonym u64 = "64 word"

text \<open>
  Byte \<open>i\<close> of a machine integer, least significant first: \<open>(w >> 8 * i) & 0xff\<close>.
\<close>

definition byte_at :: "nat \<Rightarrow> 'a::len word \<Rightarrow> byte" where
  "byte_at i w = ucast (drop_bit (8 * i) w)"

lemma bit_byte_at [bytes_simps]:
  "bit (byte_at i w) n \<longleftrightarrow> n < 8 \<and> bit w (8 * i + n)"
  by (auto simp: byte_at_def bit_ucast_iff bit_drop_bit_eq)

lemma byte_bit_high [simp]: "8 \<le> n \<Longrightarrow> bit (b :: byte) n = False"
  using bit_imp_le_length [of b n] by auto

text \<open>The little-endian layout of an integer in \<open>n\<close> bytes of memory, and its inverse.\<close>

definition to_le :: "nat \<Rightarrow> 'a::len word \<Rightarrow> byte list" where
  "to_le n w = map (\<lambda>i. byte_at i w) [0..<n]"

primrec of_le :: "byte list \<Rightarrow> 'a::len word" where
  "of_le [] = 0"
| "of_le (b # bs) = ucast b OR push_bit 8 (of_le bs)"

lemma length_to_le [simp]: "length (to_le n w) = n"
  by (simp add: to_le_def)

lemma nth_to_le [simp]: "i < n \<Longrightarrow> to_le n w ! i = byte_at i w"
  by (simp add: to_le_def)

lemma byte_at_drop: "byte_at i (drop_bit 8 w) = byte_at (Suc i) w"
  by (simp add: byte_at_def add.commute)

lemma to_le_Suc: "to_le (Suc n) w = byte_at 0 w # to_le n (drop_bit 8 w)"
  by (simp add: to_le_def upt_conv_Cons map_Suc_upt [symmetric] byte_at_drop del: upt_Suc)

lemma bit_of_le [bytes_simps]:
  "bit (of_le bs :: 'a::len word) n \<longleftrightarrow>
     n < LENGTH('a) \<and> n div 8 < length bs \<and> bit (bs ! (n div 8)) (n mod 8)"
proof (induction bs arbitrary: n)
  case Nil
  then show ?case by simp
next
  case (Cons b bs)
  have lt: "bit b n \<Longrightarrow> n < 8"
    using bit_imp_le_length [of b n] by simp
  show ?case
  proof (cases "n < 8")
    case True
    then show ?thesis
      by (auto simp: bit_or_iff bit_ucast_iff bit_push_bit_iff dest: bit_imp_le_length)
  next
    case False
    then have "n div 8 = Suc ((n - 8) div 8)" and "(n - 8) mod 8 = n mod 8"
      by (simp_all add: le_div_geq le_mod_geq)
    with False lt show ?thesis
      by (auto simp: bit_or_iff bit_ucast_iff bit_push_bit_iff Cons.IH)
  qed
qed

lemma of_le_to_le:
  assumes "LENGTH('a) \<le> 8 * n"
  shows "of_le (to_le n (w :: 'a::len word)) = w"
proof (rule bit_eqI)
  fix m
  assume "possible_bit TYPE('a word) m"
  then have m: "m < LENGTH('a)" by simp
  with assms have "m div 8 < n" by (simp add: less_mult_imp_div_less)
  with m show "bit (of_le (to_le n w) :: 'a word) m = bit w m"
    by (simp add: bytes_simps)
qed

lemma bit_of_le_to_le [bytes_simps]:
  "bit (of_le (to_le k v) :: 'a::len word) n \<longleftrightarrow> n < LENGTH('a) \<and> n < 8 * k \<and> bit v n"
  by (auto simp: bit_of_le bit_byte_at less_mult_imp_div_less dest: div_less_mono)

lemma take_to_le [simp]: "k \<le> n \<Longrightarrow> take k (to_le n v) = to_le k v"
  by (simp add: to_le_def take_map)

lemma of_le_append [bytes_simps]:
  "of_le (xs @ ys) = of_le xs OR push_bit (8 * length xs) (of_le ys)"
  by (induction xs) (simp_all add: push_bit_or or.assoc push_bit_push_bit add.commute)

lemma byte_at_of_le [bytes_simps]:
  assumes "i < length bs" and "8 * length bs \<le> LENGTH('a)"
  shows "byte_at i (of_le bs :: 'a::len word) = bs ! i"
proof (rule bit_eqI)
  fix n
  assume "possible_bit TYPE(8 word) n"
  then have "n < 8" by simp
  with assms show "bit (byte_at i (of_le bs :: 'a word)) n = bit (bs ! i) n"
    by (auto simp: bytes_simps)
qed

lemma to_le_of_le [bytes_simps]:
  "8 * length bs \<le> LENGTH('a) \<Longrightarrow> to_le (length bs) (of_le bs :: 'a::len word) = bs"
  by (rule nth_equalityI) (simp_all add: bytes_simps)

section \<open>Byte memory\<close>

text \<open>
  The memory a program can address: \<open>None\<close> is an unmapped address, whose access faults.
  Addresses are 64-bit and wrap, as pointer arithmetic does.
\<close>

type_synonym memory = "u64 \<Rightarrow> byte option"

fun load_bytes :: "memory \<Rightarrow> u64 \<Rightarrow> nat \<Rightarrow> byte list option" where
  "load_bytes m a 0 = Some []"
| "load_bytes m a (Suc n) =
     (case m a of None \<Rightarrow> None | Some b \<Rightarrow> map_option (Cons b) (load_bytes m (a + 1) n))"

fun store_bytes :: "memory \<Rightarrow> u64 \<Rightarrow> byte list \<Rightarrow> memory option" where
  "store_bytes m a [] = Some m"
| "store_bytes m a (b # bs) =
     (case m a of None \<Rightarrow> None | Some _ \<Rightarrow> store_bytes (m(a \<mapsto> b)) (a + 1) bs)"

text \<open>The addresses of an object of \<open>n\<close> bytes at \<open>a\<close>.\<close>

definition span :: "u64 \<Rightarrow> nat \<Rightarrow> u64 set" where
  "span a n = (\<lambda>i. a + of_nat i) ` {..<n}"

lemma span_0 [simp]: "span a 0 = {}"
  by (simp add: span_def)

lemma span_Suc: "span a (Suc n) = insert a (span (a + 1) n)"
proof -
  have "{..<Suc n} = insert 0 (Suc ` {..<n})"
    by (auto simp: image_iff less_Suc_eq_0_disj)
  then show ?thesis
    by (simp add: span_def image_image algebra_simps)
qed

lemma in_span_iff: "n \<le> 2 ^ 64 \<Longrightarrow> x \<in> span a n \<longleftrightarrow> unat (x - a) < n"
proof
  assume "x \<in> span a n" "n \<le> 2 ^ 64"
  then obtain i where "i < n" "x = a + of_nat i"
    by (auto simp: span_def)
  with \<open>n \<le> 2 ^ 64\<close> show "unat (x - a) < n"
    by (simp add: unat_of_nat take_bit_nat_eq_self)
next
  assume "unat (x - a) < n"
  moreover have "x = a + of_nat (unat (x - a))" by simp
  ultimately show "x \<in> span a n"
    unfolding span_def by (intro image_eqI [where x = "unat (x - a)"]) simp_all
qed

lemma span_disjoint:
  assumes "unat a + n \<le> unat b" and "unat b + m \<le> 2 ^ 64"
  shows "span a n \<inter> span b m = {}" and "span b m \<inter> span a n = {}"
proof -
  have wrap: "unat (c + of_nat i) = unat c + i" if "unat c + i < 2 ^ 64" for c :: u64 and i
    using that by (simp add: unat_word_ariths unat_of_nat)
  have "False" if "x \<in> span a n" "x \<in> span b m" for x
  proof -
    from that obtain i j where "i < n" "x = a + of_nat i" "j < m" "x = b + of_nat j"
      by (auto simp: span_def)
    then have "unat a + i = unat b + j"
      using wrap [of a i] wrap [of b j] assms by simp
    with \<open>i < n\<close> assms(1) show False by simp
  qed
  then show "span a n \<inter> span b m = {}" and "span b m \<inter> span a n = {}" by blast+
qed

lemma first_notin_span [mem_simps]: "n < 2 ^ 64 \<Longrightarrow> a \<notin> span (a + 1) n"
proof -
  assume n: "n < 2 ^ 64"
  have "unat (- 1 :: u64) = 2 ^ 64 - 1" by (simp add: unsigned_minus_1_eq_mask mask_eq_exp_minus_1)
  with n show ?thesis by (simp add: in_span_iff)
qed

lemma dom_update [mem_simps]: "m a = Some c \<Longrightarrow> dom (m(a \<mapsto> b)) = dom m"
  by auto

lemma load_bytes_iff: "(\<exists>bs. load_bytes m a n = Some bs) \<longleftrightarrow> span a n \<subseteq> dom m"
  by (induction n arbitrary: a) (auto simp: span_Suc split: option.splits)

lemma store_bytes_iff: "(\<exists>m'. store_bytes m a bs = Some m') \<longleftrightarrow> span a (length bs) \<subseteq> dom m"
proof (induction bs arbitrary: m a)
  case Nil
  then show ?case by simp
next
  case (Cons b bs)
  show ?case
  proof (cases "m a")
    case (Some c)
    then show ?thesis
      using Cons.IH [of "m(a \<mapsto> b)" "a + 1"]
      by (auto simp: span_Suc dom_update simp del: fun_upd_apply)
  qed (auto simp: span_Suc)
qed

lemma load_bytes_length: "load_bytes m a n = Some bs \<Longrightarrow> length bs = n"
  by (induction n arbitrary: a bs) (auto split: option.splits)

lemma load_bytes_take:
  "load_bytes m a n = Some bs \<Longrightarrow> k \<le> n \<Longrightarrow> load_bytes m a k = Some (take k bs)"
proof (induction n arbitrary: a bs k)
  case 0
  then show ?case by simp
next
  case (Suc n)
  then show ?case by (cases k) (auto split: option.splits)
qed

lemma load_bytes_nth: "load_bytes m a n = Some bs \<Longrightarrow> i < n \<Longrightarrow> m (a + of_nat i) = Some (bs ! i)"
proof (induction n arbitrary: a bs i)
  case (Suc n)
  then obtain b cs where b: "m a = Some b" and cs: "load_bytes m (a + 1) n = Some cs" and bs: "bs = b # cs"
    by (auto split: option.splits)
  show ?case
  proof (cases i)
    case (Suc j)
    then show ?thesis using Suc.IH [OF cs, of j] Suc.prems(2) by (simp add: bs add.assoc)
  qed (use b bs in simp)
qed simp

lemma load_bytes_append:
  "load_bytes m a (k + n) =
     (case load_bytes m a k of
        None \<Rightarrow> None
      | Some xs \<Rightarrow> map_option ((@) xs) (load_bytes m (a + of_nat k) n))"
proof (induction k arbitrary: a)
  case 0
  then show ?case by (cases "load_bytes m a n") simp_all
next
  case (Suc k)
  show ?case
    by (cases "load_bytes m (a + 1) k"; cases "load_bytes m (a + 1 + of_nat k) n")
      (simp_all add: Suc.IH add.assoc split: option.split)
qed

lemma store_bytes_frame:
  "store_bytes m a bs = Some m' \<Longrightarrow> x \<notin> span a (length bs) \<Longrightarrow> m' x = m x"
  by (induction bs arbitrary: m a) (auto simp: span_Suc split: option.splits if_splits)

lemma store_bytes_dom: "store_bytes m a bs = Some m' \<Longrightarrow> dom m' = dom m"
proof (induction bs arbitrary: m a)
  case Nil
  then show ?case by simp
next
  case (Cons b bs)
  then obtain c where c: "m a = Some c" and st: "store_bytes (m(a \<mapsto> b)) (a + 1) bs = Some m'"
    by (auto split: option.splits)
  show ?case by (simp only: Cons.IH [OF st] dom_update [of m a c b, OF c])
qed

lemma load_bytes_cong:
  "(\<And>x. x \<in> span a n \<Longrightarrow> m' x = m x) \<Longrightarrow> load_bytes m' a n = load_bytes m a n"
  by (induction n arbitrary: a) (simp_all add: span_Suc split: option.splits)

lemma load_after_store:
  assumes "store_bytes m a bs = Some m'" and "length bs \<le> 2 ^ 64"
  shows "load_bytes m' a (length bs) = Some bs"
  using assms
proof (induction bs arbitrary: m a)
  case Nil
  then show ?case by simp
next
  case (Cons b bs)
  then have st: "store_bytes (m(a \<mapsto> b)) (a + 1) bs = Some m'"
    by (auto split: option.splits)
  moreover have "a \<notin> span (a + 1) (length bs)"
    using Cons.prems(2) by (simp add: first_notin_span)
  ultimately have "m' a = Some b"
    by (auto dest: store_bytes_frame)
  moreover have "load_bytes m' (a + 1) (length bs) = Some bs"
    using Cons.IH [OF st] Cons.prems(2) by simp
  ultimately show ?case by simp
qed

lemma load_other_store:
  assumes "store_bytes m a bs = Some m'" and "span a (length bs) \<inter> span x n = {}"
  shows "load_bytes m' x n = load_bytes m x n"
  using assms by (intro load_bytes_cong store_bytes_frame) auto

text \<open>A 64-bit integer of the program, \<open>*(unsigned long *)a\<close>.\<close>

definition load_u64 :: "memory \<Rightarrow> u64 \<Rightarrow> u64 option" where
  "load_u64 m a = map_option of_le (load_bytes m a 8)"

definition store_u64 :: "memory \<Rightarrow> u64 \<Rightarrow> u64 \<Rightarrow> memory option" where
  "store_u64 m a v = store_bytes m a (to_le 8 v)"

lemma load_store_u64: "store_u64 m a v = Some m' \<Longrightarrow> load_u64 m' a = Some v"
  using load_after_store [of m a "to_le 8 v" m']
  by (simp add: store_u64_def load_u64_def of_le_to_le)

text \<open>Loads of a given number of bytes, computed.\<close>

named_theorems load_simps \<open>evaluating a load on a concrete memory\<close>

lemma load_bytes_numeral [load_simps]:
  "load_bytes m a (numeral k) =
     (case m a of None \<Rightarrow> None | Some b \<Rightarrow> map_option (Cons b) (load_bytes m (a + 1) (pred_numeral k)))"
  by (simp add: numeral_eq_Suc)

lemma to_le_numeral [load_simps]:
  "to_le (numeral k) w = ucast w # to_le (pred_numeral k) (drop_bit 8 w)"
  by (simp add: numeral_eq_Suc to_le_Suc byte_at_def)

lemma to_le_0_1 [load_simps]: "to_le 0 w = []" "to_le (Suc 0) w = [ucast w]"
  by (simp_all add: to_le_def byte_at_def)

end
