(* ===== verification/V2p.thy ===== *)
theory V2p
  imports Prelude
begin

text \<open>
  The page-table walk \<open>any_v2p\<close>, which turns a virtual address of the calling process into a
  physical one.  The repository holds it twice: in \<open>software/driver/virt2phys.h\<close>, included by the
  IP-NUMA driver, and in \<open>software/virt2phys/virt2phys.c\<close>, the stand-alone module.

  The kernel's page-table helpers (\<open>pgd_offset\<close>, \<open>pud_present\<close>, \<open>probe_kernel_address\<close>,
  \<open>PAGE_SIZE\<close>, ...) are not part of the repository: they are the fields of \<open>pt_env\<close>, a
  parameter of the walk.  The local \<open>paddr\<close> has no initial value in the C code; the model takes
  the indeterminate value it starts with as the argument \<open>junk\<close>.
\<close>

section \<open>The kernel's page-table helpers\<close>

record pt_env =
  since_4_12 :: bool                       \<comment> \<open>\<open>LINUX_VERSION_CODE >= KERNEL_VERSION(4,12,0)\<close>\<close>
  probe_kernel_address :: "u64 \<Rightarrow> int"    \<comment> \<open>0 when the kernel can read at the pointer\<close>
  entry :: "u64 \<Rightarrow> u64"                    \<comment> \<open>the table entry at a pointer, \<open>*pgd\<close>\<close>
  pgd_offset :: "u64 \<Rightarrow> u64"               \<comment> \<open>of \<open>current->mm\<close>\<close>
  p4d_offset :: "u64 \<Rightarrow> u64 \<Rightarrow> u64"
  pud_offset :: "u64 \<Rightarrow> u64 \<Rightarrow> u64"
  pmd_offset :: "u64 \<Rightarrow> u64 \<Rightarrow> u64"
  pte_offset_kernel :: "u64 \<Rightarrow> u64 \<Rightarrow> u64"
  pgd_present :: "u64 \<Rightarrow> bool"
  p4d_none :: "u64 \<Rightarrow> bool"
  pud_present :: "u64 \<Rightarrow> bool"
  pud_large :: "u64 \<Rightarrow> bool"
  pmd_present :: "u64 \<Rightarrow> bool"
  pmd_large :: "u64 \<Rightarrow> bool"
  pte_present :: "u64 \<Rightarrow> bool"
  pte_val :: "u64 \<Rightarrow> u64"
  phys_page_mask :: u64                    \<comment> \<open>\<open>PHYSICAL_PAGE_MASK\<close>\<close>
  page_size :: u64                         \<comment> \<open>\<open>PAGE_SIZE\<close>\<close>

text \<open>The kernel messages of the walk, with the pointer or entry each prints.\<close>

datatype alert =
    Bad_pgd u64 | Pgd_not_present u64
  | Bad_pud u64 | Pud_not_present u64
  | Bad_pmd u64 | Pmd_not_present u64
  | Bad_pte u64 | Pte_not_present u64
  | Bad_address

section \<open>The walk\<close>

definition bad_address :: "pt_env \<Rightarrow> u64 \<Rightarrow> bool" where
  "bad_address env p \<longleftrightarrow> probe_kernel_address env p \<noteq> 0"

definition any_v2p :: "pt_env \<Rightarrow> u64 \<Rightarrow> u64 \<Rightarrow> alert list \<times> u64" where
  "any_v2p env junk vaddr =
     (let pgd = pgd_offset env vaddr;
          paddr = junk in
      if bad_address env pgd then ([Bad_pgd pgd, Bad_address], 0)
      else if \<not> pgd_present env (entry env pgd) then ([Pgd_not_present (entry env pgd)], paddr)
      else if since_4_12 env \<and> p4d_none env (entry env (p4d_offset env pgd vaddr)) then ([], 0)
      else
      let pud = (if since_4_12 env then pud_offset env (p4d_offset env pgd vaddr) vaddr
                 else pud_offset env pgd vaddr) in
      if bad_address env pud then ([Bad_pud pud, Bad_address], 0)
      else if \<not> pud_present env (entry env pud) \<or> pud_large env (entry env pud)
        then ([Pud_not_present (entry env pud)], paddr)
      else
      let pmd = pmd_offset env pud vaddr in
      if bad_address env pmd then ([Bad_pmd pmd, Bad_address], 0)
      else if \<not> pmd_present env (entry env pmd) \<or> pmd_large env (entry env pmd)
        then ([Pmd_not_present (entry env pmd)], paddr)
      else
      let pte = pte_offset_kernel env pmd vaddr in
      if bad_address env pte then ([Bad_pte pte, Bad_address], 0)
      else if \<not> pte_present env (entry env pte) then ([Pte_not_present (entry env pte)], paddr)
      else ([], (pte_val env (entry env pte) AND phys_page_mask env)
                 OR (vaddr AND (page_size env - 1))))"

text \<open>
  The copy in \<open>virt2phys.c\<close>, over \<open>unsigned long long\<close>.  Its \<open>#else\<close> branch, which would make
  the page writable, is compiled out by the \<open>#if 1\<close> of the source.
\<close>

definition virt2phys_any_v2p :: "pt_env \<Rightarrow> u64 \<Rightarrow> u64 \<Rightarrow> alert list \<times> u64" where
  "virt2phys_any_v2p env junk vaddr =
     (let pgd = pgd_offset env vaddr in
      if bad_address env pgd then ([Bad_pgd pgd, Bad_address], 0)
      else if \<not> pgd_present env (entry env pgd) then ([Pgd_not_present (entry env pgd)], junk)
      else if since_4_12 env \<and> p4d_none env (entry env (p4d_offset env pgd vaddr)) then ([], 0)
      else
      let pud = (if since_4_12 env then pud_offset env (p4d_offset env pgd vaddr) vaddr
                 else pud_offset env pgd vaddr) in
      if bad_address env pud then ([Bad_pud pud, Bad_address], 0)
      else if \<not> pud_present env (entry env pud) \<or> pud_large env (entry env pud)
        then ([Pud_not_present (entry env pud)], junk)
      else
      let pmd = pmd_offset env pud vaddr in
      if bad_address env pmd then ([Bad_pmd pmd, Bad_address], 0)
      else if \<not> pmd_present env (entry env pmd) \<or> pmd_large env (entry env pmd)
        then ([Pmd_not_present (entry env pmd)], junk)
      else
      let pte = pte_offset_kernel env pmd vaddr in
      if bad_address env pte then ([Bad_pte pte, Bad_address], 0)
      else if \<not> pte_present env (entry env pte) then ([Pte_not_present (entry env pte)], junk)
      else ([], (pte_val env (entry env pte) AND phys_page_mask env)
                 OR (vaddr AND (page_size env - 1))))"

lemma virt2phys_any_v2p_eq: "virt2phys_any_v2p env junk vaddr = any_v2p env junk vaddr"
  by (simp add: virt2phys_any_v2p_def any_v2p_def Let_def)

section \<open>A level-by-level reference\<close>

text \<open>
  The same walk over a list of table levels: which pointer each level reads, and when its entry
  lets the walk go on.  A large (huge-page) entry stops it, as an absent one does.
\<close>

datatype level = PGD | PUD | PMD | PTE

definition levels :: "level list" where
  "levels = [PGD, PUD, PMD, PTE]"

definition pud_ptr :: "pt_env \<Rightarrow> u64 \<Rightarrow> u64" where
  "pud_ptr env va =
     (if since_4_12 env then pud_offset env (p4d_offset env (pgd_offset env va) va) va
      else pud_offset env (pgd_offset env va) va)"

primrec table_ptr :: "pt_env \<Rightarrow> u64 \<Rightarrow> level \<Rightarrow> u64" where
  "table_ptr env va PGD = pgd_offset env va"
| "table_ptr env va PUD = pud_ptr env va"
| "table_ptr env va PMD = pmd_offset env (pud_ptr env va) va"
| "table_ptr env va PTE = pte_offset_kernel env (pmd_offset env (pud_ptr env va) va) va"

primrec continues :: "pt_env \<Rightarrow> level \<Rightarrow> u64 \<Rightarrow> bool" where
  "continues env PGD e = pgd_present env e"
| "continues env PUD e = (pud_present env e \<and> \<not> pud_large env e)"
| "continues env PMD e = (pmd_present env e \<and> \<not> pmd_large env e)"
| "continues env PTE e = pte_present env e"

primrec bad_alert :: "level \<Rightarrow> u64 \<Rightarrow> alert" where
  "bad_alert PGD p = Bad_pgd p"
| "bad_alert PUD p = Bad_pud p"
| "bad_alert PMD p = Bad_pmd p"
| "bad_alert PTE p = Bad_pte p"

primrec hole_alert :: "level \<Rightarrow> u64 \<Rightarrow> alert" where
  "hole_alert PGD e = Pgd_not_present e"
| "hole_alert PUD e = Pud_not_present e"
| "hole_alert PMD e = Pmd_not_present e"
| "hole_alert PTE e = Pte_not_present e"

definition level_ok :: "pt_env \<Rightarrow> u64 \<Rightarrow> level \<Rightarrow> bool" where
  "level_ok env va l \<longleftrightarrow>
     \<not> bad_address env (table_ptr env va l) \<and> continues env l (entry env (table_ptr env va l))"

definition p4d_hole :: "pt_env \<Rightarrow> u64 \<Rightarrow> bool" where
  "p4d_hole env va \<longleftrightarrow>
     since_4_12 env \<and> p4d_none env (entry env (p4d_offset env (pgd_offset env va) va))"

text \<open>The physical address of a mapped page: the frame of the pte and the offset of the address.\<close>

definition phys_of :: "pt_env \<Rightarrow> u64 \<Rightarrow> u64" where
  "phys_of env va =
     (pte_val env (entry env (table_ptr env va PTE)) AND phys_page_mask env)
       OR (va AND (page_size env - 1))"

definition walk_stops :: "pt_env \<Rightarrow> u64 \<Rightarrow> level option" where
  "walk_stops env va = find (\<lambda>l. \<not> level_ok env va l) levels"

definition any_v2p_ref :: "pt_env \<Rightarrow> u64 \<Rightarrow> u64 \<Rightarrow> alert list \<times> u64" where
  "any_v2p_ref env junk va =
     (if walk_stops env va \<noteq> Some PGD \<and> p4d_hole env va then ([], 0)
      else case walk_stops env va of
        None \<Rightarrow> ([], phys_of env va)
      | Some l \<Rightarrow>
          let p = table_ptr env va l in
          if bad_address env p then ([bad_alert l p, Bad_address], 0)
          else ([hole_alert l (entry env p)], junk))"

lemma any_v2p_eq_ref: "any_v2p env junk va = any_v2p_ref env junk va"
  unfolding any_v2p_def any_v2p_ref_def walk_stops_def levels_def level_ok_def p4d_hole_def
    phys_of_def Let_def
  by (simp add: pud_ptr_def)

text \<open>The pages the walk can translate.\<close>

definition maps_to :: "pt_env \<Rightarrow> u64 \<Rightarrow> u64 \<Rightarrow> bool" where
  "maps_to env va pa \<longleftrightarrow> walk_stops env va = None \<and> \<not> p4d_hole env va \<and> pa = phys_of env va"

text \<open>An entry that was readable but absent or large ends the walk at \<open>goto out\<close>.\<close>

definition stops_at_hole :: "pt_env \<Rightarrow> u64 \<Rightarrow> bool" where
  "stops_at_hole env va \<longleftrightarrow>
     (case walk_stops env va of
        None \<Rightarrow> False
      | Some l \<Rightarrow> (l = PGD \<or> \<not> p4d_hole env va) \<and> \<not> bad_address env (table_ptr env va l))"

lemma walk_stops_None: "walk_stops env va = None \<longleftrightarrow> (\<forall>l. level_ok env va l)"
proof -
  have "(\<forall>l. level_ok env va l) \<longleftrightarrow> (\<forall>l \<in> set levels. level_ok env va l)"
    unfolding levels_def by simp (metis (full_types) level.exhaust)
  then show ?thesis
    by (auto simp: walk_stops_def find_None_iff)
qed

lemma any_v2p_clean:
  "any_v2p env junk va = ([], pa) \<longleftrightarrow>
     maps_to env va pa \<or> (walk_stops env va \<noteq> Some PGD \<and> p4d_hole env va \<and> pa = 0)"
  by (auto simp: any_v2p_eq_ref any_v2p_ref_def maps_to_def Let_def split: option.splits if_splits)

lemma any_v2p_hole:
  "snd (any_v2p env junk va) =
     (if stops_at_hole env va then junk else snd (any_v2p env 0 va))"
  by (auto simp: any_v2p_eq_ref any_v2p_ref_def stops_at_hole_def Let_def split: option.splits)

section \<open>What the helpers promise: translation is page by page\<close>

text \<open>
  The documented behaviour of the helpers on x86: pages of 4096 bytes, a frame mask that clears
  the offset bits, and table indices taken from the page number only.
\<close>

locale kernel_paging =
  fixes env :: pt_env
  assumes page_size_4k: "page_size env = 2 ^ 12"
    and frame_mask: "phys_page_mask env AND mask 12 = 0"
    and pgd_page: "drop_bit 12 va = drop_bit 12 va' \<Longrightarrow> pgd_offset env va = pgd_offset env va'"
    and p4d_page: "drop_bit 12 va = drop_bit 12 va' \<Longrightarrow> p4d_offset env p va = p4d_offset env p va'"
    and pud_page: "drop_bit 12 va = drop_bit 12 va' \<Longrightarrow> pud_offset env p va = pud_offset env p va'"
    and pmd_page: "drop_bit 12 va = drop_bit 12 va' \<Longrightarrow> pmd_offset env p va = pmd_offset env p va'"
    and pte_page: "drop_bit 12 va = drop_bit 12 va' \<Longrightarrow>
      pte_offset_kernel env p va = pte_offset_kernel env p va'"
begin

lemma offset_mask: "va AND (page_size env - 1) = take_bit 12 va"
  by (simp add: page_size_4k take_bit_eq_mask mask_eq_exp_minus_1)

lemma same_page_ptr:
  assumes "drop_bit 12 va = drop_bit 12 va'"
  shows "table_ptr env va l = table_ptr env va' l"
  using pgd_page [OF assms] p4d_page [OF assms] pud_page [OF assms] pmd_page [OF assms]
    pte_page [OF assms]
  by (cases l) (simp_all add: pud_ptr_def)

lemma same_page_walk:
  assumes "drop_bit 12 va = drop_bit 12 va'"
  shows "walk_stops env va = walk_stops env va'" and "p4d_hole env va = p4d_hole env va'"
  using pgd_page [OF assms] p4d_page [OF assms]
  by (simp_all add: walk_stops_def level_ok_def same_page_ptr [OF assms] p4d_hole_def)

lemma phys_offset: "take_bit 12 (phys_of env va) = take_bit 12 va"
proof -
  have "take_bit 12 (f AND phys_page_mask env) = 0" for f
    using frame_mask by (simp add: take_bit_eq_mask and.assoc)
  then show ?thesis
    by (simp add: phys_of_def offset_mask)
qed

lemma phys_split:
  "phys_of env va =
     (pte_val env (entry env (table_ptr env va PTE)) AND phys_page_mask env) + take_bit 12 va"
proof -
  have "(f AND phys_page_mask env) AND take_bit 12 va = 0" for f
    using frame_mask by (simp add: take_bit_eq_mask ac_simps)
  then show ?thesis
    by (simp add: phys_of_def offset_mask disjunctive_add_eq_or)
qed

lemma contiguous:
  assumes "maps_to env va pa" and "drop_bit 12 va = drop_bit 12 va'"
  shows "maps_to env va' (pa + (va' - va))"
proof -
  have split: "w = push_bit 12 (drop_bit 12 w) + take_bit 12 w" for w :: u64
    by (simp add: bits_ident)
  have "va' - va = take_bit 12 va' - take_bit 12 va"
    using split [of va] split [of va'] assms(2) by (metis add_diff_cancel_left)
  then show ?thesis
    using assms(1) same_page_walk [OF assms(2)] same_page_ptr [OF assms(2), of PTE]
    by (simp add: maps_to_def phys_split)
qed

end

text \<open>
  A four-level x86-64 table in memory, reached through an identity direct map: the helpers as
  functions of the table entries \<open>tbl\<close> and the root \<open>cr3\<close>.  The fifth level is folded, as it is
  on four-level machines.
\<close>

definition idx :: "nat \<Rightarrow> u64 \<Rightarrow> u64" where
  "idx sh va = push_bit 3 (take_bit 9 (drop_bit sh va))"

definition frame_bits :: u64 where
  "frame_bits = 0x000ffffffffff000"

definition x86_env :: "(u64 \<Rightarrow> u64) \<Rightarrow> u64 \<Rightarrow> pt_env" where
  "x86_env tbl cr3 = \<lparr>
     since_4_12 = True, probe_kernel_address = (\<lambda>_. 0), entry = tbl,
     pgd_offset = (\<lambda>va. cr3 + idx 39 va),
     p4d_offset = (\<lambda>pgd va. pgd),
     pud_offset = (\<lambda>p va. (tbl p AND frame_bits) + idx 30 va),
     pmd_offset = (\<lambda>p va. (tbl p AND frame_bits) + idx 21 va),
     pte_offset_kernel = (\<lambda>p va. (tbl p AND frame_bits) + idx 12 va),
     pgd_present = (\<lambda>e. bit e 0), p4d_none = (\<lambda>e. e = 0),
     pud_present = (\<lambda>e. bit e 0), pud_large = (\<lambda>e. bit e 7),
     pmd_present = (\<lambda>e. bit e 0), pmd_large = (\<lambda>e. bit e 7),
     pte_present = (\<lambda>e. bit e 0), pte_val = (\<lambda>e. e),
     phys_page_mask = frame_bits, page_size = 4096\<rparr>"

lemma idx_page: "12 \<le> sh \<Longrightarrow> drop_bit 12 va = drop_bit 12 va' \<Longrightarrow> idx sh va = idx sh va'"
proof -
  assume "12 \<le> sh" and eq: "drop_bit 12 va = drop_bit 12 va'"
  then obtain k where "sh = k + 12" by (metis le_add_diff_inverse2)
  then show ?thesis by (simp add: idx_def eq flip: drop_bit_drop_bit)
qed

lemma x86_env_paging: "kernel_paging (x86_env tbl cr3)"
proof unfold_locales
  show "page_size (x86_env tbl cr3) = 2 ^ 12"
    by (simp add: x86_env_def)
  show "phys_page_mask (x86_env tbl cr3) AND mask 12 = 0"
    by (simp add: x86_env_def frame_bits_def mask_eq_exp_minus_1)
  fix va va' p :: u64
  assume page: "drop_bit 12 va = drop_bit 12 va'"
  note [simp] = idx_page [OF _ page]
  show "pgd_offset (x86_env tbl cr3) va = pgd_offset (x86_env tbl cr3) va'"
    and "p4d_offset (x86_env tbl cr3) p va = p4d_offset (x86_env tbl cr3) p va'"
    and "pud_offset (x86_env tbl cr3) p va = pud_offset (x86_env tbl cr3) p va'"
    and "pmd_offset (x86_env tbl cr3) p va = pmd_offset (x86_env tbl cr3) p va'"
    and "pte_offset_kernel (x86_env tbl cr3) p va = pte_offset_kernel (x86_env tbl cr3) p va'"
    by (simp_all add: x86_env_def)
qed

interpretation x86: kernel_paging "x86_env tbl cr3" for tbl cr3
  by (rule x86_env_paging)

section \<open>Properties\<close>

text \<open>
  Property C23: both copies of the walk compute the level-by-level reference, messages included.
\<close>

theorem any_v2p_reference:
  "any_v2p env junk va = any_v2p_ref env junk va \<and> virt2phys_any_v2p env junk va = any_v2p_ref env junk va"
  by (simp add: virt2phys_any_v2p_eq any_v2p_eq_ref)

text \<open>
  The walk prints nothing exactly when it translates (every level readable, present
  and, above the last, not large) or when the fourth-level entry is empty, and then the result is
  the frame and offset, or 0.
\<close>

lemma any_v2p_silent_iff:
  "any_v2p env junk va = ([], pa) \<longleftrightarrow>
     ((\<forall>l. level_ok env va l) \<and> \<not> p4d_hole env va \<and> pa = phys_of env va)
     \<or> (level_ok env va PGD \<and> p4d_hole env va \<and> pa = 0)"
proof -
  have "walk_stops env va \<noteq> Some PGD \<longleftrightarrow> level_ok env va PGD"
    by (auto simp: walk_stops_def levels_def)
  then show ?thesis by (simp add: any_v2p_clean maps_to_def walk_stops_None)
qed

text \<open>
  Property C24: the result of the walk in every case.  At an entry that could be read and is absent
  or maps a large page it is the indeterminate value of the uninitialised local, and only there does
  it depend on that value.  When every level goes on and the fourth-level entry is not empty, it is
  the frame and offset of the page.  In every other case, an empty fourth-level entry below a present
  first one or a pointer the kernel cannot read, it is 0.
\<close>

theorem any_v2p_indeterminate_iff:
  "((\<exists>j k. snd (any_v2p env j va) \<noteq> snd (any_v2p env k va)) \<longleftrightarrow> stops_at_hole env va)
   \<and> snd (any_v2p env junk va) =
     (if stops_at_hole env va then junk
      else if level_ok env va PGD \<and> level_ok env va PUD \<and> level_ok env va PMD \<and> level_ok env va PTE
        \<and> \<not> p4d_hole env va then phys_of env va
      else 0)"
proof
  have "(1 :: u64) \<noteq> 0" by simp
  then show "(\<exists>j k. snd (any_v2p env j va) \<noteq> snd (any_v2p env k va)) \<longleftrightarrow> stops_at_hole env va"
    using any_v2p_hole [of env _ va] by metis
  have "walk_stops env va = None \<longleftrightarrow>
      level_ok env va PGD \<and> level_ok env va PUD \<and> level_ok env va PMD \<and> level_ok env va PTE"
    by (simp add: walk_stops_def levels_def)
  then show "snd (any_v2p env junk va) =
     (if stops_at_hole env va then junk
      else if level_ok env va PGD \<and> level_ok env va PUD \<and> level_ok env va PMD \<and> level_ok env va PTE
        \<and> \<not> p4d_hole env va then phys_of env va
      else 0)"
    by (auto simp: any_v2p_eq_ref any_v2p_ref_def stops_at_hole_def Let_def split: option.splits)
qed

text \<open>
  Property C25: with x86 page tables a page is translated as a whole: two addresses of a mapped page
  are as far apart physically as virtually.
\<close>

theorem v2p_page_contiguous:
  assumes "kernel_paging env" and "any_v2p env junk va = ([], pa)" and "\<not> p4d_hole env va"
    and "drop_bit 12 va = drop_bit 12 va'"
  shows "any_v2p env junk va' = ([], pa + (va' - va))"
  using assms kernel_paging.contiguous [OF assms(1) _ assms(4), of pa] by (simp add: any_v2p_clean)

theorem v2p_page_contiguous_witness:
  "any_v2p (x86_env (\<lambda>_. 0x5001) 0) 7 0x1234 = ([], 0x5234)
   \<and> any_v2p (x86_env (\<lambda>_. 0x5001) 0) 7 0x1fff = ([], 0x5234 + (0x1fff - 0x1234))"
proof -
  have walk: "any_v2p (x86_env (\<lambda>_. 0x5001) 0) 7 0x1234 = ([], 0x5234)"
    by (simp add: any_v2p_def x86_env_def bad_address_def frame_bits_def)
  moreover have "\<not> p4d_hole (x86_env (\<lambda>_. 0x5001) 0) 0x1234"
    by (simp add: p4d_hole_def x86_env_def)
  ultimately show ?thesis
    using v2p_page_contiguous [OF x86_env_paging walk, of "0x1fff"] by simp
qed

end
