(* ===== verification/Mmio.thy ===== *)
theory Mmio
  imports Prelude
begin

text \<open>
  Memory-mapped registers as the driver sees them: a window of byte offsets that it reads and
  writes with \<open>memcpy\<close>.  A copy of \<open>n\<close> bytes is modelled as \<open>n\<close> byte accesses at ascending
  offsets.  The locale \<open>mmio_window\<close> is the interface between the driver, which relies on its
  laws, and the boards, whose register files provide it.
\<close>

section \<open>Copies to and from a window\<close>

definition rd_range :: "('d \<Rightarrow> nat \<Rightarrow> byte) \<Rightarrow> 'd \<Rightarrow> nat \<Rightarrow> nat \<Rightarrow> byte list" where
  "rd_range rd d off n = map (\<lambda>i. rd d (off + i)) [0..<n]"

primrec wr_range :: "('d \<Rightarrow> nat \<Rightarrow> byte \<Rightarrow> 'd) \<Rightarrow> 'd \<Rightarrow> nat \<Rightarrow> byte list \<Rightarrow> 'd" where
  "wr_range wr d off [] = d"
| "wr_range wr d off (b # bs) = wr_range wr (wr d off b) (Suc off) bs"

lemma length_rd_range [simp]: "length (rd_range rd d off n) = n"
  by (simp add: rd_range_def)

lemma rd_range_cong:
  "(\<And>i. i < n \<Longrightarrow> rd d' (off + i) = rd d (off + i)) \<Longrightarrow> rd_range rd d' off n = rd_range rd d off n"
  by (simp add: rd_range_def)

lemma rd_range_Suc: "rd_range rd d off (Suc n) = rd d off # rd_range rd d (Suc off) n"
  by (simp add: rd_range_def upt_conv_Cons map_Suc_upt [symmetric] del: upt_Suc)

section \<open>The laws a window promises\<close>

text \<open>
  \<open>plain\<close> offsets behave like storage: a write is read back, and a write elsewhere in the window
  (\<open>size\<close> bytes long) leaves them alone.
\<close>

locale mmio_window =
  fixes rd :: "'d \<Rightarrow> nat \<Rightarrow> byte"
    and wr :: "'d \<Rightarrow> nat \<Rightarrow> byte \<Rightarrow> 'd"
    and plain :: "nat \<Rightarrow> bool"
    and size :: nat
  assumes rd_wr_same: "plain off \<Longrightarrow> rd (wr d off b) off = b"
    and rd_wr_other: "plain off \<Longrightarrow> off' \<noteq> off \<Longrightarrow> off' < size \<Longrightarrow> rd (wr d off' b) off = rd d off"
    and plain_bound: "plain off \<Longrightarrow> off < size"
begin

lemma rd_frame:
  assumes "plain x" and "x < off \<or> off + length bs \<le> x" and "off + length bs \<le> size"
  shows "rd (wr_range wr d off bs) x = rd d x"
  using assms
proof (induction bs arbitrary: d off)
  case Nil
  then show ?case by simp
next
  case (Cons b bs)
  then have "rd (wr_range wr (wr d off b) (Suc off) bs) x = rd (wr d off b) x"
    by (intro Cons.IH) auto
  also have "\<dots> = rd d x"
    using Cons.prems by (intro rd_wr_other) auto
  finally show ?case by simp
qed

lemma rd_range_frame:
  assumes "\<And>i. i < n \<Longrightarrow> plain (x + i)" and "x + n \<le> off \<or> off + length bs \<le> x"
    and "off + length bs \<le> size"
  shows "rd_range rd (wr_range wr d off bs) x n = rd_range rd d x n"
  using assms by (intro rd_range_cong rd_frame) auto

lemma rd_after_wr:
  assumes "\<And>i. i < length bs \<Longrightarrow> plain (off + i)"
  shows "rd_range rd (wr_range wr d off bs) off (length bs) = bs"
  using assms
proof (induction bs arbitrary: d off)
  case Nil
  then show ?case by (simp add: rd_range_def)
next
  case (Cons b bs)
  have here: "plain off" using Cons.prems [of 0] by simp
  have rest: "plain (Suc off + i)" if "i < length bs" for i
    using Cons.prems [of "Suc i"] that by simp
  have bound: "Suc off + length bs \<le> size"
    using plain_bound [OF Cons.prems [of "length bs"]] by simp
  have "rd (wr_range wr (wr d off b) (Suc off) bs) off = rd (wr d off b) off"
    using here bound by (intro rd_frame) auto
  with here rest Cons.IH [of "Suc off" "wr d off b"] show ?case
    by (simp add: rd_range_Suc rd_wr_same)
qed

end

end
