(* ===== verification/Boards.thy ===== *)
theory Boards
  imports Mmio
begin

text \<open>
  The user registers of the two boards, as their Verilog has them: the address, MAC and memory
  translation registers and the BAR0 decoders of \<open>boards/ecp3versa/rtl/ecp3/ipnuma.v\<close> and
  \<open>boards/kc705/rtl/pcie/PIO_EP_MEM_ACCESS.v\<close>.  The byte accessors present them to the driver
  as a window of \<open>Mmio\<close>.
\<close>

section \<open>Bit fields\<close>

text \<open>\<open>w[hi:lo] <= v\<close> and \<open>w[hi:lo]\<close> of Verilog; a short \<open>v\<close> is extended with zeros.\<close>

definition put_bits :: "nat \<Rightarrow> nat \<Rightarrow> 'a::len word \<Rightarrow> 'b::len word \<Rightarrow> 'b word" where
  "put_bits hi lo v w =
     (w AND NOT (push_bit lo (mask (hi + 1 - lo)))) OR push_bit lo (take_bit (hi + 1 - lo) (ucast v))"

definition get_bits :: "nat \<Rightarrow> nat \<Rightarrow> 'b::len word \<Rightarrow> 'a::len word" where
  "get_bits hi lo w = ucast (take_bit (hi + 1 - lo) (drop_bit lo w))"

definition put_if :: "bool \<Rightarrow> nat \<Rightarrow> nat \<Rightarrow> 'a::len word \<Rightarrow> 'b::len word \<Rightarrow> 'b word" where
  "put_if c hi lo v w = (if c then put_bits hi lo v w else w)"

named_theorems reg_simps \<open>reading and writing register bit fields\<close>

lemma bit_put:
  "bit (put_bits hi lo v w) n \<longleftrightarrow>
     (if lo \<le> n \<and> n \<le> hi then n < LENGTH('b) \<and> bit v (n - lo) else bit w n)"
  for w :: "'b::len word"
  by (auto simp: put_bits_def bit_simps dest: bit_imp_le_length)

lemma bit_get:
  "bit (get_bits hi lo w :: 'a::len word) n \<longleftrightarrow> n < LENGTH('a) \<and> n < hi + 1 - lo \<and> bit w (lo + n)"
  by (auto simp: get_bits_def bit_simps)

lemma get_put_same [reg_simps]:
  "hi = lo + 7 \<Longrightarrow> hi < LENGTH('b) \<Longrightarrow> get_bits hi lo (put_bits hi lo (b :: byte) (w :: 'b::len word)) = b"
  by (rule bit_eqI) (auto simp: bit_put bit_get)

lemma get_put_other [reg_simps]:
  "hi < lo' \<or> hi' < lo \<Longrightarrow> get_bits hi lo (put_bits hi' lo' v w) = get_bits hi lo w"
  by (rule bit_eqI) (auto simp: bit_put bit_get)

lemma get_full_byte [reg_simps]: "get_bits 7 0 (b :: byte) = (b :: byte)"
  by (rule bit_eqI) (auto simp: bit_get)

section \<open>The register file\<close>

record regs =
  if_v4addr :: u32
  if_macaddr :: "48 word"
  dest_v4addr :: u32
  dest_macaddr :: "48 word"
  mem0_paddr :: "48 word"

text \<open>Two bytes on the 16-bit slave bus of the ECP3 board: \<open>{hi, lo}\<close>.\<close>

definition cat16 :: "byte \<Rightarrow> byte \<Rightarrow> u16" where
  "cat16 h l = push_bit 8 (ucast h) OR ucast l"

definition cat32 :: "byte \<Rightarrow> byte \<Rightarrow> byte \<Rightarrow> byte \<Rightarrow> u32" where
  "cat32 b3 b2 b1 b0 =
     push_bit 24 (ucast b3) OR push_bit 16 (ucast b2) OR push_bit 8 (ucast b1) OR ucast b0"

lemma get_cat16 [reg_simps]:
  "get_bits 7 0 (cat16 h l) = l" "get_bits 15 8 (cat16 h l) = h"
  by (auto intro!: bit_eqI simp: bit_get cat16_def bit_simps dest: bit_imp_le_length)

lemma get_cat32 [reg_simps]:
  "get_bits 7 0 (cat32 b3 b2 b1 b0) = b0" "get_bits 15 8 (cat32 b3 b2 b1 b0) = b1"
  "get_bits 23 16 (cat32 b3 b2 b1 b0) = b2" "get_bits 31 24 (cat32 b3 b2 b1 b0) = b3"
  by (auto intro!: bit_eqI simp: bit_get cat32_def bit_simps dest: bit_imp_le_length)

lemma get_cat32_nibble [reg_simps]: "get_bits 23 20 (cat32 b3 b2 b1 b0) = get_bits 7 4 b2"
  by (auto intro!: bit_eqI simp: bit_get cat32_def bit_simps dest: bit_imp_le_length)

text \<open>Bytes written to a register, most significant first.\<close>

definition of_be :: "byte list \<Rightarrow> 'a::len word" where
  "of_be bs = of_le (rev bs)"

lemma put_all_32:
  "put_bits 7 0 b3 (put_bits 15 8 b2 (put_bits 23 16 b1 (put_bits 31 24 b0 (w :: u32))))
     = of_be [b0, b1, b2, b3]"
  by (rule bit_eqI) (auto simp: of_be_def bit_put bit_simps)

lemma put_all_48:
  "put_bits 7 0 b5 (put_bits 15 8 b4 (put_bits 23 16 b3 (put_bits 31 24 b2
     (put_bits 39 32 b1 (put_bits 47 40 b0 (w :: 48 word)))))) = of_be [b0, b1, b2, b3, b4, b5]"
  by (rule bit_eqI) (auto simp: of_be_def bit_put bit_simps)

lemma put_all_16:
  "put_bits 7 0 b1 (put_bits 15 8 b0 (w :: u16)) = of_be [b0, b1]"
  by (rule bit_eqI) (auto simp: of_be_def bit_put bit_simps)

section \<open>ECP3: a 16-bit slave bus\<close>

text \<open>
  One bus cycle of \<open>ipnuma.v\<close>: \<open>adr\<close> is \<open>slv_adr_i[9:1]\<close>, \<open>sel\<close> is \<open>slv_sel_i\<close> and \<open>dat\<close> is
  \<open>slv_dat_i\<close>.
\<close>

definition ecp3_write :: "regs \<Rightarrow> nat \<Rightarrow> byte \<Rightarrow> u16 \<Rightarrow> regs" where
  "ecp3_write r adr sel dat =
     (let lo = (get_bits 7 0 dat :: byte); hi = (get_bits 15 8 dat :: byte);
          s0 = bit sel 0; s1 = bit sel 1 in
      if adr = 0x000 then
        r\<lparr>if_v4addr := put_if s1 31 24 hi (put_if s0 23 16 lo (if_v4addr r))\<rparr>
      else if adr = 0x001 then
        r\<lparr>if_v4addr := put_if s1 15 8 hi (put_if s0 7 0 lo (if_v4addr r))\<rparr>
      else if adr = 0x002 then
        r\<lparr>if_macaddr := put_if s1 47 40 hi (put_if s0 39 32 lo (if_macaddr r))\<rparr>
      else if adr = 0x003 then
        r\<lparr>if_macaddr := put_if s1 31 24 hi (put_if s0 23 16 lo (if_macaddr r))\<rparr>
      else if adr = 0x004 then
        r\<lparr>if_macaddr := put_if s1 15 8 hi (put_if s0 7 0 lo (if_macaddr r))\<rparr>
      else if adr = 0x008 then
        r\<lparr>dest_v4addr := put_if s1 31 24 hi (put_if s0 23 16 lo (dest_v4addr r))\<rparr>
      else if adr = 0x009 then
        r\<lparr>dest_v4addr := put_if s1 15 8 hi (put_if s0 7 0 lo (dest_v4addr r))\<rparr>
      else if adr = 0x00a then
        r\<lparr>dest_macaddr := put_if s1 47 40 hi (put_if s0 39 32 lo (dest_macaddr r))\<rparr>
      else if adr = 0x00b then
        r\<lparr>dest_macaddr := put_if s1 31 24 hi (put_if s0 23 16 lo (dest_macaddr r))\<rparr>
      else if adr = 0x00c then
        r\<lparr>dest_macaddr := put_if s1 15 8 hi (put_if s0 7 0 lo (dest_macaddr r))\<rparr>
      else if adr = 0x014 then
        r\<lparr>mem0_paddr := put_if s1 7 0 hi (put_if s0 15 8 lo (mem0_paddr r))\<rparr>
      else if adr = 0x015 then
        r\<lparr>mem0_paddr := put_if s1 23 16 hi (put_if s0 31 24 lo (mem0_paddr r))\<rparr>
      else if adr = 0x016 then
        r\<lparr>mem0_paddr := put_if s1 39 32 hi (put_if s0 47 40 lo (mem0_paddr r))\<rparr>
      else r)"

definition ecp3_read :: "regs \<Rightarrow> nat \<Rightarrow> u16" where
  "ecp3_read r adr =
     (if adr = 0x000 then get_bits 31 16 (if_v4addr r)
      else if adr = 0x001 then get_bits 15 0 (if_v4addr r)
      else if adr = 0x002 then get_bits 47 32 (if_macaddr r)
      else if adr = 0x003 then get_bits 31 16 (if_macaddr r)
      else if adr = 0x004 then get_bits 15 0 (if_macaddr r)
      else if adr = 0x008 then get_bits 31 16 (dest_v4addr r)
      else if adr = 0x009 then get_bits 15 0 (dest_v4addr r)
      else if adr = 0x00a then get_bits 47 32 (dest_macaddr r)
      else if adr = 0x00b then get_bits 31 16 (dest_macaddr r)
      else if adr = 0x00c then get_bits 15 0 (dest_macaddr r)
      else if adr = 0x014 then cat16 (get_bits 7 0 (mem0_paddr r)) (get_bits 15 8 (mem0_paddr r))
      else if adr = 0x015 then cat16 (get_bits 23 16 (mem0_paddr r)) (get_bits 31 24 (mem0_paddr r))
      else if adr = 0x016 then cat16 (get_bits 39 32 (mem0_paddr r)) (get_bits 47 40 (mem0_paddr r))
      else 0)"

text \<open>
  A byte access as the slave sequencer of \<open>pcie_tlp.v\<close> issues it: the byte at an even offset is
  \<open>dat[15:8]\<close>, enabled by \<open>sel[1]\<close>.
\<close>

definition ecp3_wr :: "regs \<Rightarrow> nat \<Rightarrow> byte \<Rightarrow> regs" where
  "ecp3_wr r off b =
     ecp3_write r (off div 2 mod 512) (if even off then 2 else 1)
       (if even off then cat16 b 0 else cat16 0 b)"

definition ecp3_rd :: "regs \<Rightarrow> nat \<Rightarrow> byte" where
  "ecp3_rd r off =
     (if even off then get_bits 15 8 (ecp3_read r (off div 2 mod 512))
      else get_bits 7 0 (ecp3_read r (off div 2 mod 512)))"

text \<open>The offsets that hold a register byte: both addresses, both MACs, the remote address.\<close>

definition ecp3_plain :: "nat \<Rightarrow> bool" where
  "ecp3_plain off \<longleftrightarrow> off < 10 \<or> (16 \<le> off \<and> off < 26) \<or> (40 \<le> off \<and> off < 46)"

lemma get_get [reg_simps]:
  "hi' + lo \<le> hi \<Longrightarrow> hi' < LENGTH('b) \<Longrightarrow>
     get_bits hi' lo' (get_bits hi lo w :: 'b::len word) = get_bits (lo + hi') (lo + lo') w"
  by (rule bit_eqI) (auto simp: bit_get ac_simps)

lemma get_bits_0 [reg_simps]: "get_bits hi lo 0 = 0"
  by (rule bit_eqI) (simp add: bit_get)

section \<open>Registers by the byte\<close>

text \<open>
  A byte of a register is named by the register and the position of its lowest bit; bytes at
  different positions do not overlap.
\<close>

datatype reg = IF_V4 | IF_MAC | DEST_V4 | DEST_MAC | MEM0

primrec get_byte :: "regs \<Rightarrow> reg \<Rightarrow> nat \<Rightarrow> byte" where
  "get_byte r IF_V4 lo = get_bits (lo + 7) lo (if_v4addr r)"
| "get_byte r IF_MAC lo = get_bits (lo + 7) lo (if_macaddr r)"
| "get_byte r DEST_V4 lo = get_bits (lo + 7) lo (dest_v4addr r)"
| "get_byte r DEST_MAC lo = get_bits (lo + 7) lo (dest_macaddr r)"
| "get_byte r MEM0 lo = get_bits (lo + 7) lo (mem0_paddr r)"

primrec put_byte :: "regs \<Rightarrow> reg \<Rightarrow> nat \<Rightarrow> byte \<Rightarrow> regs" where
  "put_byte r IF_V4 lo b = r\<lparr>if_v4addr := put_bits (lo + 7) lo b (if_v4addr r)\<rparr>"
| "put_byte r IF_MAC lo b = r\<lparr>if_macaddr := put_bits (lo + 7) lo b (if_macaddr r)\<rparr>"
| "put_byte r DEST_V4 lo b = r\<lparr>dest_v4addr := put_bits (lo + 7) lo b (dest_v4addr r)\<rparr>"
| "put_byte r DEST_MAC lo b = r\<lparr>dest_macaddr := put_bits (lo + 7) lo b (dest_macaddr r)\<rparr>"
| "put_byte r MEM0 lo b = r\<lparr>mem0_paddr := put_bits (lo + 7) lo b (mem0_paddr r)\<rparr>"

definition reg_width :: "reg \<Rightarrow> nat" where
  "reg_width g = (if g = IF_V4 \<or> g = DEST_V4 then 32 else 48)"

lemma get_put_byte: "lo + 7 < reg_width g \<Longrightarrow> get_byte (put_byte r g lo b) g lo = b"
  by (cases g) (simp_all add: reg_simps reg_width_def)

lemma get_put_byte_other:
  "g \<noteq> g' \<or> lo + 7 < lo' \<or> lo' + 7 < lo \<Longrightarrow> get_byte (put_byte r g lo b) g' lo' = get_byte r g' lo'"
  by (cases g; cases g') (auto simp: reg_simps)

text \<open>The register byte behind each offset of the ECP3 window.\<close>

definition ecp3_slot :: "nat \<Rightarrow> (reg \<times> nat) option" where
  "ecp3_slot off =
     (if off < 4 then Some (IF_V4, 8 * (3 - off))
      else if off < 10 then Some (IF_MAC, 8 * (9 - off))
      else if 16 \<le> off \<and> off < 20 then Some (DEST_V4, 8 * (19 - off))
      else if 20 \<le> off \<and> off < 26 then Some (DEST_MAC, 8 * (25 - off))
      else if 40 \<le> off \<and> off < 46 then Some (MEM0, 8 * (off - 40))
      else None)"

lemma below_48: "off < 48 \<Longrightarrow> list_all P [0..<48] \<Longrightarrow> P off"
  by (simp add: list_all_iff)

lemma ecp3_rd_slot:
  "off < 48 \<Longrightarrow> ecp3_rd r off = (case ecp3_slot off of None \<Rightarrow> 0 | Some (g, lo) \<Rightarrow> get_byte r g lo)"
  by (erule below_48, simp add: upt_rec, intro conjI;
      simp add: ecp3_rd_def ecp3_read_def ecp3_slot_def reg_simps)

lemma ecp3_wr_slot:
  "off < 48 \<Longrightarrow> ecp3_wr r off b = (case ecp3_slot off of None \<Rightarrow> r | Some (g, lo) \<Rightarrow> put_byte r g lo b)"
  by (erule below_48, simp add: upt_rec, intro conjI;
      simp add: ecp3_wr_def ecp3_write_def ecp3_slot_def reg_simps put_if_def Let_def)

lemma ecp3_slot_plain: "ecp3_plain off \<longleftrightarrow> ecp3_slot off \<noteq> None"
  by (auto simp: ecp3_plain_def ecp3_slot_def)

lemma ecp3_slot_width: "ecp3_slot off = Some (g, lo) \<Longrightarrow> lo + 7 < reg_width g"
  by (auto simp: ecp3_slot_def reg_width_def split: if_splits)

lemma ecp3_slot_inj:
  "ecp3_slot off = Some (g, lo) \<Longrightarrow> ecp3_slot off' = Some (g', lo') \<Longrightarrow> off \<noteq> off' \<Longrightarrow>
     g \<noteq> g' \<or> lo + 7 < lo' \<or> lo' + 7 < lo"
  by (simp add: ecp3_slot_def split: if_splits; arith)

interpretation ecp3: mmio_window ecp3_rd ecp3_wr ecp3_plain 48
proof unfold_locales
  fix off off' b d
  assume plain: "ecp3_plain off"
  then show lt: "off < 48" by (auto simp: ecp3_plain_def)
  from plain obtain g lo where slot: "ecp3_slot off = Some (g, lo)"
    by (auto simp: ecp3_slot_plain)
  then show "ecp3_rd (ecp3_wr d off b) off = b"
    using lt by (simp add: ecp3_rd_slot ecp3_wr_slot get_put_byte ecp3_slot_width)
  assume "off' \<noteq> off" and "off' < 48"
  then show "ecp3_rd (ecp3_wr d off' b) off = ecp3_rd d off"
    using lt slot ecp3_slot_inj [of off' _ _ off]
    by (auto simp: ecp3_rd_slot ecp3_wr_slot get_put_byte_other split: option.splits)
qed

section \<open>KC705: a 32-bit register port\<close>

text \<open>
  One write and one read of \<open>PIO_EP_MEM_ACCESS.v\<close>: \<open>adr\<close> is \<open>wr_addr[5:0]\<close>, a double-word
  index, and byte \<open>k\<close> of the double word is \<open>wr_data[31 - 8 k : 24 - 8 k]\<close>, enabled by \<open>wr_be[k]\<close>.
  Non-blocking assignments of one clock take effect in the order of the source.  \<open>debug\<close> is the
  module's \<open>debug\<close> input.
\<close>

definition kc705_write :: "regs \<Rightarrow> nat \<Rightarrow> byte \<Rightarrow> u32 \<Rightarrow> regs" where
  "kc705_write r adr be d =
     (let b0 = (get_bits 31 24 d :: byte); b1 = (get_bits 23 16 d :: byte);
          b2 = (get_bits 15 8 d :: byte); b3 = (get_bits 7 0 d :: byte) in
      if adr = 0x00 then
        r\<lparr>if_v4addr := put_if (bit be 3) 7 0 b3 (put_if (bit be 2) 15 8 b2
          (put_if (bit be 1) 23 16 b1 (put_if (bit be 0) 31 24 b0 (if_v4addr r))))\<rparr>
      else if adr = 0x02 then
        r\<lparr>if_macaddr := put_if (bit be 3) 23 16 b3 (put_if (bit be 2) 31 23 b2
          (put_if (bit be 1) 39 32 b1 (put_if (bit be 0) 47 40 b0 (if_macaddr r))))\<rparr>
      else if adr = 0x03 then
        r\<lparr>if_macaddr := put_if (bit be 1) 7 0 b1 (put_if (bit be 0) 15 8 b0 (if_macaddr r))\<rparr>
      else if adr = 0x04 then
        r\<lparr>dest_v4addr := put_if (bit be 3) 7 0 b3 (put_if (bit be 2) 15 8 b2
          (put_if (bit be 1) 23 16 b1 (put_if (bit be 0) 31 24 b0 (dest_v4addr r))))\<rparr>
      else if adr = 0x06 then
        r\<lparr>dest_macaddr := put_if (bit be 3) 23 16 b3 (put_if (bit be 2) 31 24 b2
          (put_if (bit be 1) 39 32 b1 (put_if (bit be 0) 47 40 b0 (dest_macaddr r))))\<rparr>
      else if adr = 0x07 then
        r\<lparr>dest_macaddr := put_if (bit be 1) 7 0 b1 (put_if (bit be 0) 15 8 b0 (dest_macaddr r))\<rparr>
      else if adr = 0x0A then
        r\<lparr>mem0_paddr := put_if (bit be 3) 31 24 b3 (put_if (bit be 2) 23 16 b2
          (put_if (bit be 1) 15 12 (get_bits 23 20 d :: byte) (mem0_paddr r)))\<rparr>
      else if adr = 0x0b then
        r\<lparr>mem0_paddr := put_if (bit be 1) 47 40 b1 (put_if (bit be 0) 39 32 b0 (mem0_paddr r))\<rparr>
      else r)"

definition kc705_read :: "byte \<Rightarrow> regs \<Rightarrow> nat \<Rightarrow> u32" where
  "kc705_read debug r adr =
     (if adr = 0x00 then if_v4addr r
      else if adr = 0x02 then get_bits 47 16 (if_macaddr r)
      else if adr = 0x03 then
        cat32 (get_bits 15 8 (if_macaddr r)) (get_bits 7 0 (if_macaddr r)) 0 debug
      else if adr = 0x04 then dest_v4addr r
      else if adr = 0x06 then get_bits 47 16 (dest_macaddr r)
      else if adr = 0x07 then
        cat32 (get_bits 15 8 (dest_macaddr r)) (get_bits 7 0 (dest_macaddr r)) 0 0
      else if adr = 0x0A then
        cat32 0 (put_bits 7 4 (get_bits 15 12 (mem0_paddr r) :: byte) 0)
          (get_bits 23 16 (mem0_paddr r)) (get_bits 31 24 (mem0_paddr r))
      else if adr = 0x0B then
        cat32 (get_bits 39 32 (mem0_paddr r)) (get_bits 47 40 (mem0_paddr r)) 0 0
      else 0)"

definition kc705_wr :: "regs \<Rightarrow> nat \<Rightarrow> byte \<Rightarrow> regs" where
  "kc705_wr r off b =
     (let k = off mod 4 in
      kc705_write r (off div 4 mod 64)
        (if k = 0 then 1 else if k = 1 then 2 else if k = 2 then 4 else 8)
        (cat32 (if k = 0 then b else 0) (if k = 1 then b else 0)
               (if k = 2 then b else 0) (if k = 3 then b else 0)))"

definition kc705_rd :: "byte \<Rightarrow> regs \<Rightarrow> nat \<Rightarrow> byte" where
  "kc705_rd debug r off =
     (let k = off mod 4; d = kc705_read debug r (off div 4 mod 64) in
      if k = 0 then get_bits 31 24 d else if k = 1 then get_bits 23 16 d
      else if k = 2 then get_bits 15 8 d else get_bits 7 0 d)"

text \<open>
  Offsets 10 and 41 are not byte registers: the write of MAC byte 2 names the nine bits
  \<open>if_macaddr[31:23]\<close>, and only the upper half of offset 41 is stored.
\<close>

definition kc705_slot :: "nat \<Rightarrow> (reg \<times> nat) option" where
  "kc705_slot off =
     (if off < 4 then Some (IF_V4, 8 * (3 - off))
      else if 8 \<le> off \<and> off < 14 then Some (IF_MAC, 8 * (13 - off))
      else if 16 \<le> off \<and> off < 20 then Some (DEST_V4, 8 * (19 - off))
      else if 24 \<le> off \<and> off < 30 then Some (DEST_MAC, 8 * (29 - off))
      else if 42 \<le> off \<and> off < 46 then Some (MEM0, 8 * (off - 40))
      else None)"

definition kc705_plain :: "nat \<Rightarrow> bool" where
  "kc705_plain off \<longleftrightarrow> kc705_slot off \<noteq> None \<and> off \<noteq> 10 \<and> off \<noteq> 11"

lemma kc705_rd_slot:
  "off < 48 \<Longrightarrow> kc705_rd dbg r off =
     (if off = 15 then dbg
      else if off = 41 then put_bits 7 4 (get_bits 15 12 (mem0_paddr r) :: byte) 0
      else case kc705_slot off of None \<Rightarrow> 0 | Some (g, lo) \<Rightarrow> get_byte r g lo)"
  by (erule below_48, simp add: upt_rec, intro conjI;
      simp add: kc705_rd_def kc705_read_def kc705_slot_def reg_simps Let_def)

lemma kc705_wr_slot:
  "off < 48 \<Longrightarrow> kc705_wr r off b =
     (if off = 10 then r\<lparr>if_macaddr := put_bits 31 23 b (if_macaddr r)\<rparr>
      else if off = 41 then r\<lparr>mem0_paddr := put_bits 15 12 (get_bits 7 4 b :: byte) (mem0_paddr r)\<rparr>
      else case kc705_slot off of None \<Rightarrow> r | Some (g, lo) \<Rightarrow> put_byte r g lo b)"
  by (erule below_48, simp add: upt_rec, intro conjI;
      simp add: kc705_wr_def kc705_write_def kc705_slot_def reg_simps put_if_def Let_def)

lemma kc705_slot_width: "kc705_slot off = Some (g, lo) \<Longrightarrow> lo + 7 < reg_width g"
  by (auto simp: kc705_slot_def reg_width_def split: if_splits)

lemma kc705_slot_inj:
  "kc705_slot off = Some (g, lo) \<Longrightarrow> kc705_slot off' = Some (g', lo') \<Longrightarrow> off \<noteq> off' \<Longrightarrow>
     g \<noteq> g' \<or> lo + 7 < lo' \<or> lo' + 7 < lo"
  by (simp add: kc705_slot_def split: if_splits; arith)

text \<open>The two irregular writes leave every plain byte alone.\<close>

lemma kc705_mac_clobber:
  assumes "kc705_slot off = Some (g, lo)" and "off \<noteq> 10" and "off \<noteq> 11"
  shows "get_byte (r\<lparr>if_macaddr := put_bits 31 23 b (if_macaddr r)\<rparr>) g lo = get_byte r g lo"
proof (cases "g = IF_MAC")
  case True
  with assms have "31 < lo \<or> lo + 7 < 23"
    by (auto simp: kc705_slot_def split: if_splits)
  with True show ?thesis by (auto simp: reg_simps)
qed (cases g, simp_all)

lemma kc705_mem0_clobber:
  assumes "kc705_slot off = Some (g, lo)"
  shows "get_byte (r\<lparr>mem0_paddr := put_bits 15 12 v (mem0_paddr r)\<rparr>) g lo = get_byte r g lo"
proof (cases "g = MEM0")
  case True
  with assms have "15 < lo" by (auto simp: kc705_slot_def split: if_splits)
  with True show ?thesis by (simp add: reg_simps)
qed (cases g, simp_all)

interpretation kc705: mmio_window "kc705_rd dbg" kc705_wr kc705_plain 48 for dbg
proof unfold_locales
  fix off off' b d
  assume plain: "kc705_plain off"
  then obtain g lo where slot: "kc705_slot off = Some (g, lo)" and ne: "off \<noteq> 10" "off \<noteq> 11"
    by (auto simp: kc705_plain_def)
  from slot show lt: "off < 48" by (auto simp: kc705_slot_def split: if_splits)
  from slot have ne': "off \<noteq> 15" "off \<noteq> 41"
    by (auto simp: kc705_slot_def split: if_splits)
  with lt slot ne show "kc705_rd dbg (kc705_wr d off b) off = b"
    by (simp add: kc705_rd_slot kc705_wr_slot get_put_byte kc705_slot_width)
  assume "off' \<noteq> off" and "off' < 48"
  then show "kc705_rd dbg (kc705_wr d off' b) off = kc705_rd dbg d off"
    using lt slot ne ne' kc705_slot_inj [of off' _ _ off] kc705_mac_clobber [OF slot ne]
      kc705_mem0_clobber [OF slot]
    by (auto simp: kc705_rd_slot kc705_wr_slot get_put_byte_other split: option.splits)
qed

text \<open>
  A whole double word with all byte enables is the same as its four bytes in ascending order, so
  modelling \<open>memcpy\<close> byte by byte loses nothing on this board.
\<close>

lemma kc705_dword_is_bytes:
  assumes "adr < 12"
  shows "kc705_write r adr 15 (cat32 b0 b1 b2 b3) = wr_range kc705_wr r (4 * adr) [b0, b1, b2, b3]"
proof -
  have "list_all (\<lambda>adr. kc705_write r adr 15 (cat32 b0 b1 b2 b3) =
      wr_range kc705_wr r (4 * adr) [b0, b1, b2, b3]) [0..<12]"
    apply (simp add: upt_rec, intro conjI)
    apply (simp_all add: kc705_wr_slot kc705_slot_def)
    apply (simp_all add: kc705_write_def put_if_def reg_simps)
    done
  with assms show ?thesis by (simp add: list_all_iff)
qed

end
