(* ===== verification/Driver.thy ===== *)
theory Driver
  imports V2p Boards
begin

text \<open>
  The character device of the IP-NUMA driver: \<open>software/driver/ipnuma_ioctl.h\<close> and the file
  operations of \<open>software/driver/ipnuma.c\<close>.  The \<open>_IOC\<close> macro of the kernel headers, the page
  tables and the board behind BAR0 are parameters, gathered in the record \<open>host\<close>.
\<close>

named_theorems ioctl_simps \<open>unfolding one ioctl request\<close>

section \<open>Command numbers (\<open>ipnuma_ioctl.h\<close>)\<close>

text \<open>\<open>_IOC(dir, type, nr, size)\<close> and its direction constants, which depend on the platform.\<close>

record ioc_abi =
  IOC :: "nat \<Rightarrow> nat \<Rightarrow> nat \<Rightarrow> nat \<Rightarrow> u32"
  ioc_none :: nat
  ioc_read :: nat
  ioc_write :: nat

definition IPNUMA_IOCTL_MAGIC :: nat where
  "IPNUMA_IOCTL_MAGIC = 0xAE"

datatype ipnuma_cmd =
    RESET | GETPADDR | GETIFV4ADDR | SETIFV4ADDR | GETIFMACADDR | SETIFMACADDR
  | GETDESTV4ADDR | SETDESTV4ADDR | GETDESTMACADDR | SETDESTMACADDR
  | GETMEM0PADDR | SETMEM0PADDR | GETBARADDR

primrec cmd_code :: "ioc_abi \<Rightarrow> ipnuma_cmd \<Rightarrow> u32" where
  "cmd_code k RESET          = IOC k (ioc_none k)  IPNUMA_IOCTL_MAGIC 0 0"
| "cmd_code k GETPADDR       = IOC k (ioc_read k)  IPNUMA_IOCTL_MAGIC 1 8"
| "cmd_code k GETIFV4ADDR    = IOC k (ioc_read k)  IPNUMA_IOCTL_MAGIC 2 4"
| "cmd_code k SETIFV4ADDR    = IOC k (ioc_write k) IPNUMA_IOCTL_MAGIC 3 4"
| "cmd_code k GETIFMACADDR   = IOC k (ioc_read k)  IPNUMA_IOCTL_MAGIC 4 6"
| "cmd_code k SETIFMACADDR   = IOC k (ioc_write k) IPNUMA_IOCTL_MAGIC 5 6"
| "cmd_code k GETDESTV4ADDR  = IOC k (ioc_read k)  IPNUMA_IOCTL_MAGIC 6 4"
| "cmd_code k SETDESTV4ADDR  = IOC k (ioc_write k) IPNUMA_IOCTL_MAGIC 7 4"
| "cmd_code k GETDESTMACADDR = IOC k (ioc_read k)  IPNUMA_IOCTL_MAGIC 8 6"
| "cmd_code k SETDESTMACADDR = IOC k (ioc_write k) IPNUMA_IOCTL_MAGIC 9 6"
| "cmd_code k GETMEM0PADDR   = IOC k (ioc_read k)  IPNUMA_IOCTL_MAGIC 10 8"
| "cmd_code k SETMEM0PADDR   = IOC k (ioc_write k) IPNUMA_IOCTL_MAGIC 11 8"
| "cmd_code k GETBARADDR     = IOC k (ioc_read k)  IPNUMA_IOCTL_MAGIC 12 8"

text \<open>
  What the driver relies on of \<open>_IOC\<close>: commands of one type with different numbers have
  different codes (the number has a field of 8 bits of its own).
\<close>

locale ioc_encoding =
  fixes k :: ioc_abi
  assumes nr_recovered:
    "IOC k d t n s = IOC k d' t n' s' \<Longrightarrow> t < 256 \<Longrightarrow> n < 256 \<Longrightarrow> n' < 256 \<Longrightarrow> n = n'"
begin

lemma code_nr:
  "IOC k d IPNUMA_IOCTL_MAGIC n s = IOC k d' IPNUMA_IOCTL_MAGIC n' s' \<Longrightarrow>
     n < 256 \<Longrightarrow> n' < 256 \<Longrightarrow> n = n'"
  using nr_recovered [of d IPNUMA_IOCTL_MAGIC n s d' n' s'] by (simp add: IPNUMA_IOCTL_MAGIC_def)

lemma code_neq [simp]:
  "n < 256 \<Longrightarrow> n' < 256 \<Longrightarrow> n \<noteq> n' \<Longrightarrow>
     IOC k d IPNUMA_IOCTL_MAGIC n s \<noteq> IOC k d' IPNUMA_IOCTL_MAGIC n' s'"
  using code_nr by blast

lemma cmd_code_inj: "cmd_code k c = cmd_code k c' \<longleftrightarrow> c = c'"
  by (cases c; cases c'; simp)

end

text \<open>The layout of \<open>asm-generic/ioctl.h\<close>, used on x86.\<close>

definition generic_ioc :: ioc_abi where
  "generic_ioc = \<lparr>
     IOC = (\<lambda>d t n s. push_bit 30 (of_nat d) OR push_bit 16 (of_nat s)
                       OR push_bit 8 (of_nat t) OR of_nat n),
     ioc_none = 0, ioc_read = 2, ioc_write = 1\<rparr>"

lemma generic_ioc_nr:
  assumes "n < 256"
  shows "take_bit 8 (IOC generic_ioc d t n s) = of_nat n"
proof -
  have "take_bit 8 n = n"
    using assms by (simp add: take_bit_nat_eq_self)
  then have "take_bit 8 (of_nat n :: u32) = of_nat n"
    by (simp add: take_bit_of_nat)
  then show ?thesis
    by (simp add: generic_ioc_def take_bit_push_bit)
qed

interpretation generic_ioc: ioc_encoding generic_ioc
proof unfold_locales
  fix d t n s d' n' s'
  assume "IOC generic_ioc d t n s = IOC generic_ioc d' t n' s'" "n < 256" "n' < 256"
  then have "(of_nat n :: u32) = of_nat n'"
    by (metis generic_ioc_nr)
  with \<open>n < 256\<close> \<open>n' < 256\<close> show "n = n'"
    by (simp add: word_of_nat_eq_iff take_bit_nat_eq_self)
qed

section \<open>The driver's variables and what it runs on\<close>

text \<open>
  The file-scope variables of \<open>ipnuma.c\<close>, with the static locals of \<open>ipnuma_init_one\<close>; pointer 0
  is NULL.  \<open>queues_ready\<close> records that both wait queues have been initialised.
\<close>

record drv =
  mmio0_ptr :: u64
  mmio1_ptr :: u64
  dma_virt_ptr :: u64
  dma_phys_ptr :: u64
  mmio0_start :: u64
  mmio0_end :: u64
  mmio0_flags :: u64
  mmio0_len :: u64
  mmio1_start :: u64
  mmio1_end :: u64
  mmio1_flags :: u64
  mmio1_len :: u64
  pcidev :: u64
  queues_ready :: bool
  board_idx :: int
  dev_name :: string

text \<open>
  The parameters of the model: the \<open>_IOC\<close> encoding, the page-table helpers, the value the
  uninitialised local of \<open>any_v2p\<close> starts with, and the board's window.
\<close>

record 'd host =
  abi :: ioc_abi
  page_tables :: pt_env
  v2p_junk :: u64
  rd_mmio :: "'d \<Rightarrow> nat \<Rightarrow> byte"
  wr_mmio :: "'d \<Rightarrow> nat \<Rightarrow> byte \<Rightarrow> 'd"

record 'd kstate =
  drv_of :: drv
  mem_of :: memory
  dev_of :: 'd

datatype kfault = Null_mmio | Bad_pointer

section \<open>The ioctl handler\<close>

text \<open>\<open>memcpy(ptr, mmio0_ptr + off, n)\<close> and \<open>memcpy(mmio0_ptr + off, ptr, n)\<close>.\<close>

definition copy_out :: "'d host \<Rightarrow> nat \<Rightarrow> u64 \<Rightarrow> nat \<Rightarrow> 'd kstate \<Rightarrow> kfault + 'd kstate" where
  "copy_out h off ptr n s =
     (if mmio0_ptr (drv_of s) = 0 then Inl Null_mmio
      else case store_bytes (mem_of s) ptr (rd_range (rd_mmio h) (dev_of s) off n) of
        None \<Rightarrow> Inl Bad_pointer
      | Some m \<Rightarrow> Inr (s\<lparr>mem_of := m\<rparr>))"

definition copy_in :: "'d host \<Rightarrow> nat \<Rightarrow> u64 \<Rightarrow> nat \<Rightarrow> 'd kstate \<Rightarrow> kfault + 'd kstate" where
  "copy_in h off ptr n s =
     (if mmio0_ptr (drv_of s) = 0 then Inl Null_mmio
      else case load_bytes (mem_of s) ptr n of
        None \<Rightarrow> Inl Bad_pointer
      | Some bs \<Rightarrow> Inr (s\<lparr>dev_of := wr_range (wr_mmio h) (dev_of s) off bs\<rparr>))"

definition store_out :: "u64 \<Rightarrow> u64 \<Rightarrow> 'd kstate \<Rightarrow> kfault + 'd kstate" where
  "store_out ptr v s =
     (case store_u64 (mem_of s) ptr v of
        None \<Rightarrow> Inl Bad_pointer
      | Some m \<Rightarrow> Inr (s\<lparr>mem_of := m\<rparr>))"

definition then_do :: "'e + 'a \<Rightarrow> ('a \<Rightarrow> 'e + 'b) \<Rightarrow> 'e + 'b" where
  "then_do r f = (case r of Inl e \<Rightarrow> Inl e | Inr a \<Rightarrow> f a)"

definition return_0 :: "kfault + 'd kstate \<Rightarrow> kfault + (int \<times> 'd kstate)" where
  "return_0 r = then_do r (\<lambda>s. Inr (0, s))"

definition ENOTTY :: int where
  "ENOTTY = 25"

definition ipnuma_ioctl ::
    "'d host \<Rightarrow> u32 \<Rightarrow> u64 \<Rightarrow> 'd kstate \<Rightarrow> kfault + (int \<times> 'd kstate)" where
  "ipnuma_ioctl h cmd arg s =
     (let code = cmd_code (abi h) in
      if cmd = code GETPADDR then
        (case load_u64 (mem_of s) arg of
           None \<Rightarrow> Inl Bad_pointer
         | Some va \<Rightarrow>
             let ret = snd (any_v2p (page_tables h) (v2p_junk h) va) in
             return_0 (store_out arg ret s))
      else if cmd = code GETIFV4ADDR then return_0 (copy_out h 0 arg 4 s)
      else if cmd = code SETIFV4ADDR then return_0 (copy_in h 0 arg 4 s)
      else if cmd = code GETIFMACADDR then return_0 (copy_out h 4 arg 6 s)
      else if cmd = code SETIFMACADDR then return_0 (copy_in h 4 arg 6 s)
      else if cmd = code GETDESTV4ADDR then return_0 (copy_out h 0x10 arg 4 s)
      else if cmd = code SETDESTV4ADDR then return_0 (copy_in h 0x10 arg 4 s)
      else if cmd = code GETDESTMACADDR then return_0 (copy_out h 0x14 arg 6 s)
      else if cmd = code SETDESTMACADDR then return_0 (copy_in h 0x14 arg 6 s)
      else if cmd = code GETMEM0PADDR then
        return_0 (then_do (copy_out h 0x28 arg 4 s) (copy_out h 0x2c arg 4))
      else if cmd = code SETMEM0PADDR then
        return_0 (then_do (copy_in h 0x28 arg 4 s) (copy_in h 0x2c arg 4))
      else if cmd = code GETBARADDR then
        return_0 (store_out arg (mmio1_start (drv_of s)) s)
      else Inr (- ENOTTY, s))"

section \<open>The other file operations\<close>

text \<open>
  \<open>read\<close> and \<open>write\<close> keep their count in an \<open>int\<close>: it is cut to 32 bits and widened with its sign
  to the \<open>ssize_t\<close> they return.  Neither touches the buffer: the copies are compiled out.
\<close>

definition ipnuma_read :: "u64 \<Rightarrow> u64" where
  "ipnuma_read count = (let copy_len = (ucast count :: u32) in scast copy_len)"

definition ipnuma_write :: "u64 \<Rightarrow> u64" where
  "ipnuma_write count = (let copy_len = (ucast count :: u32) in scast copy_len)"

definition ipnuma_open :: "'d kstate \<Rightarrow> int \<times> 'd kstate" where
  "ipnuma_open s = (0, s)"

definition ipnuma_release :: "'d kstate \<Rightarrow> int \<times> 'd kstate" where
  "ipnuma_release s = (0, s)"

definition ipnuma_poll :: "'d kstate \<Rightarrow> u32 \<times> 'd kstate" where
  "ipnuma_poll s = (0, s)"

datatype irqreturn = IRQ_NONE | IRQ_HANDLED

text \<open>The handler returns at its first statement, \<open>if (1) return IRQ_NONE\<close>.\<close>

definition ipnuma_interrupt :: "irqreturn" where
  "ipnuma_interrupt = IRQ_NONE"

section \<open>A table of requests\<close>

text \<open>
  What each command does, as data: which windows of the board it reads or writes, in order.
\<close>

datatype action =
    Translate | Read_regs "(nat \<times> nat) list" | Write_regs "(nat \<times> nat) list" | Bar2_start
  | Unsupported

primrec action_of :: "ipnuma_cmd \<Rightarrow> action" where
  "action_of RESET          = Unsupported"
| "action_of GETPADDR       = Translate"
| "action_of GETIFV4ADDR    = Read_regs [(0x00, 4)]"
| "action_of SETIFV4ADDR    = Write_regs [(0x00, 4)]"
| "action_of GETIFMACADDR   = Read_regs [(0x04, 6)]"
| "action_of SETIFMACADDR   = Write_regs [(0x04, 6)]"
| "action_of GETDESTV4ADDR  = Read_regs [(0x10, 4)]"
| "action_of SETDESTV4ADDR  = Write_regs [(0x10, 4)]"
| "action_of GETDESTMACADDR = Read_regs [(0x14, 6)]"
| "action_of SETDESTMACADDR = Write_regs [(0x14, 6)]"
| "action_of GETMEM0PADDR   = Read_regs [(0x28, 4), (0x2c, 4)]"
| "action_of SETMEM0PADDR   = Write_regs [(0x28, 4), (0x2c, 4)]"
| "action_of GETBARADDR     = Bar2_start"

primrec copies :: "(nat \<Rightarrow> nat \<Rightarrow> 's \<Rightarrow> 'e + 's) \<Rightarrow> (nat \<times> nat) list \<Rightarrow> 's \<Rightarrow> 'e + 's" where
  "copies f [] s = Inr s"
| "copies f (w # ws) s = then_do (f (fst w) (snd w) s) (copies f ws)"

primrec perform :: "'d host \<Rightarrow> u64 \<Rightarrow> 'd kstate \<Rightarrow> action \<Rightarrow> kfault + (int \<times> 'd kstate)" where
  "perform h arg s Translate =
     (case load_u64 (mem_of s) arg of
        None \<Rightarrow> Inl Bad_pointer
      | Some va \<Rightarrow>
          return_0 (store_out arg (snd (any_v2p (page_tables h) (v2p_junk h) va)) s))"
| "perform h arg s (Read_regs ws) = return_0 (copies (\<lambda>off n. copy_out h off arg n) ws s)"
| "perform h arg s (Write_regs ws) = return_0 (copies (\<lambda>off n. copy_in h off arg n) ws s)"
| "perform h arg s Bar2_start = return_0 (store_out arg (mmio1_start (drv_of s)) s)"
| "perform h arg s Unsupported = Inr (- ENOTTY, s)"

lemma then_do_simps [simp]:
  "then_do (Inl e) f = Inl e"
  "then_do (Inr a) f = f a"
  "then_do r Inr = r"
  by (simp_all add: then_do_def split: sum.splits)

lemma then_do_Inr_iff: "then_do r f = Inr b \<longleftrightarrow> (\<exists>a. r = Inr a \<and> f a = Inr b)"
  by (cases r) simp_all

lemma return_0_Inr_iff [simp]: "return_0 r = Inr (z, s) \<longleftrightarrow> r = Inr s \<and> z = 0"
  by (cases r) (auto simp: return_0_def)

lemma return_0_ok_iff: "(\<exists>r. return_0 x = Inr r) \<longleftrightarrow> (\<exists>s. x = Inr s)"
  by (cases x) (auto simp: return_0_def)

lemma then_do_ok_iff: "(\<exists>b. then_do r f = Inr b) \<longleftrightarrow> (\<exists>a. r = Inr a \<and> (\<exists>b. f a = Inr b))"
  by (cases r) simp_all

lemma copies_Nil_fun [simp]: "copies f [] = Inr"
  by (rule ext) simp

lemma copies_single [simp]: "copies f [w] = f (fst w) (snd w)"
  by (rule ext) simp

context ioc_encoding
begin

lemma ioctl_performs:
  "abi h = k \<Longrightarrow> ipnuma_ioctl h (cmd_code k c) arg s = perform h arg s (action_of c)"
  by (cases c) (simp_all add: ipnuma_ioctl_def Let_def split: option.split)

lemma ioctl_unknown:
  "abi h = k \<Longrightarrow> cmd \<notin> range (cmd_code k) \<Longrightarrow> ipnuma_ioctl h cmd arg s = Inr (- ENOTTY, s)"
proof -
  assume "abi h = k" and "cmd \<notin> range (cmd_code k)"
  moreover from this have "cmd \<noteq> cmd_code k c" for c by auto
  ultimately show ?thesis
    by (simp add: ipnuma_ioctl_def Let_def del: cmd_code.simps)
qed

end

declare cmd_code.simps [simp del]

section \<open>A concrete driver\<close>

text \<open>
  A driver with its windows mapped, on a machine whose memory holds at each address its low byte;
  the witnesses of the properties run on it.
\<close>

definition example_host :: "('d \<Rightarrow> nat \<Rightarrow> byte) \<Rightarrow> ('d \<Rightarrow> nat \<Rightarrow> byte \<Rightarrow> 'd) \<Rightarrow> 'd host" where
  "example_host rd wr = \<lparr>abi = generic_ioc, page_tables = x86_env (\<lambda>_. 1) 0, v2p_junk = 0,
     rd_mmio = rd, wr_mmio = wr\<rparr>"

definition example_drv :: drv where
  "example_drv = \<lparr>mmio0_ptr = 0x10000, mmio1_ptr = 0x20000, dma_virt_ptr = 0x30000, dma_phys_ptr = 0x40000,
     mmio0_start = 0xE0000000, mmio0_end = 0xE0000FFF, mmio0_flags = 0, mmio0_len = 0x1000,
     mmio1_start = 0xEC000000, mmio1_end = 0xEC03FFFF, mmio1_flags = 0, mmio1_len = 0x40000,
     pcidev = 1, queues_ready = True, board_idx = 0, dev_name = ''ipnuma/0''\<rparr>"

definition example_regs :: regs where
  "example_regs = \<lparr>if_v4addr = 0, if_macaddr = 0, dest_v4addr = 0, dest_macaddr = 0, mem0_paddr = 0\<rparr>"

definition example_state :: "regs kstate" where
  "example_state = \<lparr>drv_of = example_drv, mem_of = (\<lambda>a. Some (ucast a)), dev_of = example_regs\<rparr>"

lemma example_simps [simp]:
  "abi (example_host rd wr) = generic_ioc" "rd_mmio (example_host rd wr) = rd"
  "wr_mmio (example_host rd wr) = wr" "mmio0_ptr (drv_of example_state) = 0x10000"
  "mem_of example_state a = Some (ucast a)" "dev_of example_state = example_regs"
  "ioc_encoding generic_ioc" "dom (mem_of example_state) = UNIV"
  "mmio1_start (drv_of example_state) = 0xEC000000"
  by (auto simp: example_host_def example_state_def example_drv_def
      intro: generic_ioc.ioc_encoding_axioms)

lemma example_bytes [simp]:
  "load_bytes (mem_of example_state) 0x1000 4 = Some [0, 1, 2, 3]"
  "load_bytes (mem_of example_state) 0x1000 6 = Some [0, 1, 2, 3, 4, 5]"
  "load_bytes (mem_of example_state) 0x1000 8 = Some (to_le 8 (0x0706050403020100 :: u64))"
  by (simp_all add: load_simps)

end
