(* ===== verification/Registers.thy ===== *)
theory Registers
  imports Driver
begin

text \<open>
  What the register requests of the driver do to each board: the values the board ends up with,
  what a GET after a SET returns, and what is left alone.
\<close>

section \<open>The driver over any window\<close>

context mmio_window
begin

lemma copy_in_out:
  assumes h: "rd_mmio h = rd" "wr_mmio h = wr"
    and plain: "\<And>i. i < n \<Longrightarrow> plain (off + i)" and n: "n \<le> 2 ^ 64"
    and wrote: "copy_in h off p n s = Inr s1"
    and got: "copy_out h off q n s1 = Inr s2"
  shows "load_bytes (mem_of s2) q n = load_bytes (mem_of s) p n"
proof -
  from wrote h obtain bs where bs: "load_bytes (mem_of s) p n = Some bs"
    and s1: "s1 = s\<lparr>dev_of := wr_range wr (dev_of s) off bs\<rparr>"
    by (auto simp: copy_in_def split: if_splits option.splits)
  have len: "length bs = n" using bs by (rule load_bytes_length)
  then have same: "rd_range rd (wr_range wr (dev_of s) off bs) off n = bs"
    using rd_after_wr [of bs off] plain by simp
  with got h s1 same obtain m where "store_bytes (mem_of s) q bs = Some m" and "s2 = s1\<lparr>mem_of := m\<rparr>"
    by (auto simp: copy_out_def split: if_splits option.splits)
  with len n bs show ?thesis
    by (auto dest: load_after_store)
qed

lemma copy_in_frame:
  assumes h: "wr_mmio h = wr"
    and plain: "\<And>i. i < k \<Longrightarrow> plain (x + i)" and away: "x + k \<le> off \<or> off + n \<le> x"
    and size: "off + n \<le> size"
    and wrote: "copy_in h off p n s = Inr s1"
  shows "rd_range rd (dev_of s1) x k = rd_range rd (dev_of s) x k"
proof -
  from wrote h obtain bs where bs: "load_bytes (mem_of s) p n = Some bs"
    and s1: "s1 = s\<lparr>dev_of := wr_range wr (dev_of s) off bs\<rparr>"
    by (auto simp: copy_in_def split: if_splits option.splits)
  have "length bs = n" using bs by (rule load_bytes_length)
  with plain away size s1 show ?thesis
    by (simp add: rd_range_frame)
qed

end

section \<open>What a request may change\<close>

lemma copy_out_effect:
  "copy_out h off p n s = Inr s' \<Longrightarrow>
     drv_of s' = drv_of s \<and> dev_of s' = dev_of s \<and> (\<forall>x. x \<notin> span p n \<longrightarrow> mem_of s' x = mem_of s x)"
  by (auto simp: copy_out_def split: if_splits option.splits dest: store_bytes_frame)

lemma copy_in_effect:
  "copy_in h off p n s = Inr s' \<Longrightarrow> drv_of s' = drv_of s \<and> mem_of s' = mem_of s"
  by (auto simp: copy_in_def split: if_splits option.splits)

lemma store_out_effect:
  "store_out p v s = Inr s' \<Longrightarrow>
     drv_of s' = drv_of s \<and> dev_of s' = dev_of s \<and> (\<forall>x. x \<notin> span p 8 \<longrightarrow> mem_of s' x = mem_of s x)"
  by (auto simp: store_out_def store_u64_def split: option.splits dest: store_bytes_frame)

lemma copy_out_ok_iff:
  "(\<exists>s'. copy_out h off p n s = Inr s') \<longleftrightarrow> mmio0_ptr (drv_of s) \<noteq> 0 \<and> span p n \<subseteq> dom (mem_of s)"
  using store_bytes_iff [of "mem_of s" p "rd_range (rd_mmio h) (dev_of s) off n"]
  by (auto simp: copy_out_def split: option.splits)

lemma copy_in_ok_iff:
  "(\<exists>s'. copy_in h off p n s = Inr s') \<longleftrightarrow> mmio0_ptr (drv_of s) \<noteq> 0 \<and> span p n \<subseteq> dom (mem_of s)"
  using load_bytes_iff [of "mem_of s" p n]
  by (auto simp: copy_in_def split: option.splits)

lemma store_out_ok_iff: "(\<exists>s'. store_out p v s = Inr s') \<longleftrightarrow> span p 8 \<subseteq> dom (mem_of s)"
  using store_bytes_iff [of "mem_of s" p "to_le 8 v"]
  by (auto simp: store_out_def store_u64_def split: option.splits)

lemma span_mono: "n \<le> n' \<Longrightarrow> span p n \<subseteq> span p n'"
  by (auto simp: span_def)

lemma span_tail: "span (p + 4) 4 \<subseteq> span p 8"
proof
  fix x
  assume "x \<in> span (p + 4) 4"
  then obtain i where "i < 4" "x = p + 4 + of_nat i" by (auto simp: span_def)
  then show "x \<in> span p 8"
    unfolding span_def by (intro image_eqI [where x = "i + 4"]) simp_all
qed

lemma mem0_bytes_48:
  "put_bits 47 40 b1' (put_bits 39 32 b0' (put_bits 31 24 b3 (put_bits 23 16 b2
     (put_bits 15 8 b1 (put_bits 7 0 b0 (w :: 48 word)))))) = of_le [b0, b1, b2, b3, b0', b1']"
  by (rule bit_eqI) (auto simp: bit_put bit_simps)

text \<open>
  The SET requests as a function of the bytes they carry.  The driver passes the first four bytes
  of a remote physical address twice, at offsets \<open>0x28\<close> and \<open>0x2c\<close>.
\<close>

fun set_window :: "ipnuma_cmd \<Rightarrow> nat option" where
  "set_window SETIFV4ADDR = Some 4"
| "set_window SETIFMACADDR = Some 6"
| "set_window SETDESTV4ADDR = Some 4"
| "set_window SETDESTMACADDR = Some 6"
| "set_window SETMEM0PADDR = Some 4"
| "set_window _ = None"

fun ecp3_set :: "ipnuma_cmd \<Rightarrow> byte list \<Rightarrow> regs \<Rightarrow> regs" where
  "ecp3_set SETIFV4ADDR bs r = r\<lparr>if_v4addr := of_be bs\<rparr>"
| "ecp3_set SETIFMACADDR bs r = r\<lparr>if_macaddr := of_be bs\<rparr>"
| "ecp3_set SETDESTV4ADDR bs r = r\<lparr>dest_v4addr := of_be bs\<rparr>"
| "ecp3_set SETDESTMACADDR bs r = r\<lparr>dest_macaddr := of_be bs\<rparr>"
| "ecp3_set SETMEM0PADDR bs r = r\<lparr>mem0_paddr := of_le (bs @ take 2 bs)\<rparr>"
| "ecp3_set _ bs r = r"

text \<open>
  On the KC705 the MAC registers start four bytes higher than the driver writes: only the last
  two bytes of the address arrive, in the place of its first two.
\<close>

fun kc705_set :: "ipnuma_cmd \<Rightarrow> byte list \<Rightarrow> regs \<Rightarrow> regs" where
  "kc705_set SETIFV4ADDR bs r = r\<lparr>if_v4addr := of_be bs\<rparr>"
| "kc705_set SETIFMACADDR bs r =
     r\<lparr>if_macaddr := put_bits 39 32 (bs ! 5) (put_bits 47 40 (bs ! 4) (if_macaddr r))\<rparr>"
| "kc705_set SETDESTV4ADDR bs r = r\<lparr>dest_v4addr := of_be bs\<rparr>"
| "kc705_set SETDESTMACADDR bs r =
     r\<lparr>dest_macaddr := put_bits 39 32 (bs ! 5) (put_bits 47 40 (bs ! 4) (dest_macaddr r))\<rparr>"
| "kc705_set SETMEM0PADDR bs r =
     r\<lparr>mem0_paddr := put_bits 47 40 (bs ! 1) (put_bits 39 32 (bs ! 0)
        (put_bits 31 24 (bs ! 3) (put_bits 23 16 (bs ! 2)
          (put_bits 15 12 (get_bits 7 4 (bs ! 1) :: byte) (mem0_paddr r)))))\<rparr>"
| "kc705_set _ bs r = r"

lemma length_Suc_4: "length bs = 4 \<longleftrightarrow> (\<exists>a b c d. bs = [a, b, c, d])"
  by (auto simp: numeral_eq_Suc length_Suc_conv)

lemma length_Suc_6: "length bs = 6 \<longleftrightarrow> (\<exists>a b c d e f. bs = [a, b, c, d, e, f])"
  by (auto simp: numeral_eq_Suc length_Suc_conv)

lemma ecp3_wr_4:
  "wr_range ecp3_wr r 0x00 [a, b, c, d] = r\<lparr>if_v4addr := of_be [a, b, c, d]\<rparr>"
  "wr_range ecp3_wr r 0x10 [a, b, c, d] = r\<lparr>dest_v4addr := of_be [a, b, c, d]\<rparr>"
  by (simp_all add: ecp3_wr_slot ecp3_slot_def put_all_32)

lemma ecp3_wr_6:
  "wr_range ecp3_wr r 0x04 [a, b, c, d, e, f] = r\<lparr>if_macaddr := of_be [a, b, c, d, e, f]\<rparr>"
  "wr_range ecp3_wr r 0x14 [a, b, c, d, e, f] = r\<lparr>dest_macaddr := of_be [a, b, c, d, e, f]\<rparr>"
  by (simp_all add: ecp3_wr_slot ecp3_slot_def put_all_48)

lemma ecp3_wr_mem0:
  "wr_range ecp3_wr (wr_range ecp3_wr r 0x28 [a, b, c, d]) 0x2c [a, b, c, d]
     = r\<lparr>mem0_paddr := of_le [a, b, c, d, a, b]\<rparr>"
  by (simp add: ecp3_wr_slot ecp3_slot_def mem0_bytes_48)

lemma kc705_wr_4:
  "wr_range kc705_wr r 0x00 [a, b, c, d] = r\<lparr>if_v4addr := of_be [a, b, c, d]\<rparr>"
  "wr_range kc705_wr r 0x10 [a, b, c, d] = r\<lparr>dest_v4addr := of_be [a, b, c, d]\<rparr>"
  by (simp_all add: kc705_wr_slot kc705_slot_def put_all_32)

lemma kc705_wr_6:
  "wr_range kc705_wr r 0x04 [a, b, c, d, e, f]
     = r\<lparr>if_macaddr := put_bits 39 32 f (put_bits 47 40 e (if_macaddr r))\<rparr>"
  "wr_range kc705_wr r 0x14 [a, b, c, d, e, f]
     = r\<lparr>dest_macaddr := put_bits 39 32 f (put_bits 47 40 e (dest_macaddr r))\<rparr>"
  by (simp_all add: kc705_wr_slot kc705_slot_def)

lemma kc705_wr_mem0:
  "wr_range kc705_wr (wr_range kc705_wr r 0x28 [a, b, c, d]) 0x2c [a, b, c, d]
     = r\<lparr>mem0_paddr := put_bits 47 40 b (put_bits 39 32 a (put_bits 31 24 d (put_bits 23 16 c
          (put_bits 15 12 (get_bits 7 4 b :: byte) (mem0_paddr r)))))\<rparr>"
  by (simp add: kc705_wr_slot kc705_slot_def)

lemmas board_writes = ecp3_wr_4 ecp3_wr_6 ecp3_wr_mem0 kc705_wr_4 kc705_wr_6 kc705_wr_mem0

lemma copy_in_ok:
  "mmio0_ptr (drv_of s) \<noteq> 0 \<Longrightarrow> load_bytes (mem_of s) p n = Some bs \<Longrightarrow>
     copy_in h off p n s = Inr (s\<lparr>dev_of := wr_range (wr_mmio h) (dev_of s) off bs\<rparr>)"
  by (simp add: copy_in_def)

text \<open>The same requests over any window, in the order the driver copies.\<close>

fun set_effect :: "('d \<Rightarrow> nat \<Rightarrow> byte \<Rightarrow> 'd) \<Rightarrow> ipnuma_cmd \<Rightarrow> byte list \<Rightarrow> 'd \<Rightarrow> 'd" where
  "set_effect wr SETIFV4ADDR bs d = wr_range wr d 0x00 bs"
| "set_effect wr SETIFMACADDR bs d = wr_range wr d 0x04 bs"
| "set_effect wr SETDESTV4ADDR bs d = wr_range wr d 0x10 bs"
| "set_effect wr SETDESTMACADDR bs d = wr_range wr d 0x14 bs"
| "set_effect wr SETMEM0PADDR bs d = wr_range wr (wr_range wr d 0x28 bs) 0x2c bs"
| "set_effect wr _ bs d = d"

lemma set_request:
  assumes "ioc_encoding (abi h)" and "mmio0_ptr (drv_of s) \<noteq> 0"
    and "set_window c = Some n" and "load_bytes (mem_of s) p n = Some bs"
  shows "ipnuma_ioctl h (cmd_code (abi h) c) p s =
    Inr (0, s\<lparr>dev_of := set_effect (wr_mmio h) c bs (dev_of s)\<rparr>)"
  using assms(2-4)
  by (cases c)
    (simp_all add: ioc_encoding.ioctl_performs [OF assms(1) refl] copy_in_ok return_0_def)

lemma set_window_shape:
  "set_window c = Some (length bs) \<Longrightarrow>
     (\<exists>b0 b1 b2 b3. bs = [b0, b1, b2, b3]) \<or> (\<exists>b0 b1 b2 b3 b4 b5. bs = [b0, b1, b2, b3, b4, b5])"
  by (cases c) (auto simp: length_Suc_4 [symmetric] length_Suc_6 [symmetric])

lemma ecp3_set_effect:
  assumes "set_window c = Some (length bs)"
  shows "set_effect ecp3_wr c bs r = ecp3_set c bs r"
  using assms set_window_shape [OF assms]
  by (cases c) (auto simp: board_writes simp del: wr_range.simps)

lemma kc705_set_effect:
  assumes "set_window c = Some (length bs)"
  shows "set_effect kc705_wr c bs r = kc705_set c bs r"
  using assms set_window_shape [OF assms]
  by (cases c) (auto simp: board_writes simp del: wr_range.simps)

lemma ecp3_set_run:
  assumes "ioc_encoding (abi h)" and "wr_mmio h = ecp3_wr" and "mmio0_ptr (drv_of s) \<noteq> 0"
    and "set_window c = Some n" and "load_bytes (mem_of s) p n = Some bs"
  shows "ipnuma_ioctl h (cmd_code (abi h) c) p s = Inr (0, s\<lparr>dev_of := ecp3_set c bs (dev_of s)\<rparr>)"
  using set_request [OF assms(1,3,4,5)] assms(2,4) load_bytes_length [OF assms(5)]
  by (simp add: ecp3_set_effect)

lemma kc705_set_run:
  assumes "ioc_encoding (abi h)" and "wr_mmio h = kc705_wr" and "mmio0_ptr (drv_of s) \<noteq> 0"
    and "set_window c = Some n" and "load_bytes (mem_of s) p n = Some bs"
  shows "ipnuma_ioctl h (cmd_code (abi h) c) p s = Inr (0, s\<lparr>dev_of := kc705_set c bs (dev_of s)\<rparr>)"
  using set_request [OF assms(1,3,4,5)] assms(2,4) load_bytes_length [OF assms(5)]
  by (simp add: kc705_set_effect)

text \<open>
  Property C7: on the ECP3 board a SET request of the driver stores the bytes it is given in the
  register it names, most significant byte first, and changes no other register, no memory and
  no variable of the driver.  The remote address gets its low 32 bits from the argument and its
  upper 16 bits from the same low bytes again.
\<close>

theorem ecp3_set_registers:
  assumes "ioc_encoding (abi h)" and "wr_mmio h = ecp3_wr" and "mmio0_ptr (drv_of s) \<noteq> 0"
    and "set_window c = Some n" and "load_bytes (mem_of s) p n = Some bs"
  shows "ipnuma_ioctl h (cmd_code (abi h) c) p s = Inr (0, s\<lparr>dev_of := ecp3_set c bs (dev_of s)\<rparr>)"
  using assms by (rule ecp3_set_run)

theorem ecp3_set_registers_witness:
  "ipnuma_ioctl (example_host ecp3_rd ecp3_wr) (cmd_code generic_ioc SETIFMACADDR) 0x1000 example_state =
     Inr (0, example_state\<lparr>dev_of := example_regs\<lparr>if_macaddr := 0x000102030405\<rparr>\<rparr>)"
  using ecp3_set_registers [of "example_host ecp3_rd ecp3_wr" example_state SETIFMACADDR 6 "0x1000" "[0, 1, 2, 3, 4, 5]"]
  by (simp add: of_be_def)

text \<open>
  Property C8: on the KC705 board the same requests reach the addresses and the remote address
  register, but a MAC request changes only two bytes of the MAC register, and puts the last two
  bytes of the argument in the place of the first two of the address.
\<close>

theorem kc705_set_registers:
  assumes "ioc_encoding (abi h)" and "wr_mmio h = kc705_wr" and "mmio0_ptr (drv_of s) \<noteq> 0"
    and "set_window c = Some n" and "load_bytes (mem_of s) p n = Some bs"
  shows "ipnuma_ioctl h (cmd_code (abi h) c) p s = Inr (0, s\<lparr>dev_of := kc705_set c bs (dev_of s)\<rparr>)"
  using assms by (rule kc705_set_run)

theorem kc705_set_registers_witness:
  "ipnuma_ioctl (example_host (kc705_rd 0) kc705_wr) (cmd_code generic_ioc SETIFMACADDR) 0x1000 example_state =
     Inr (0, example_state\<lparr>dev_of := example_regs\<lparr>if_macaddr := 0x040500000000\<rparr>\<rparr>)"
  using kc705_set_registers [of "example_host (kc705_rd 0) kc705_wr" example_state SETIFMACADDR 6 "0x1000" "[0, 1, 2, 3, 4, 5]"]
  by (simp add: example_regs_def put_bits_def mask_eq_exp_minus_1)

section \<open>The remote address\<close>

lemma mem0_copy_bits:
  "bit (of_le (to_le 4 v @ to_le 2 v) :: 48 word) n \<longleftrightarrow>
     (if n < 32 then bit v n else n < 48 \<and> bit v (n - 32))"
  by (auto simp: bytes_simps bit_simps)

text \<open>
  Property C9: after SETMEM0PADDR with the 64-bit address \<open>v\<close>, the ECP3 register holds the address
  (its low 48 bits) exactly when bits 47 to 32 of the address repeat bits 15 to 0.
\<close>

theorem ecp3_mem0_address:
  assumes "ioc_encoding (abi h)" and "wr_mmio h = ecp3_wr" and "mmio0_ptr (drv_of s) \<noteq> 0"
    and "load_bytes (mem_of s) p 8 = Some (to_le 8 v)"
    and "ipnuma_ioctl h (cmd_code (abi h) SETMEM0PADDR) p s = Inr (z, s')"
  shows "mem0_paddr (dev_of s') = ucast v \<longleftrightarrow> (get_bits 47 32 v :: u16) = get_bits 15 0 v"
proof -
  have "set_window SETMEM0PADDR = Some 4" by simp
  moreover have "load_bytes (mem_of s) p 4 = Some (to_le 4 v)"
    using load_bytes_take [OF assms(4), of 4] by simp
  ultimately have mem0: "mem0_paddr (dev_of s') = of_le (to_le 4 v @ to_le 2 v)"
    using ecp3_set_run [OF assms(1-3)] assms(5) by auto
  have "mem0_paddr (dev_of s') = ucast v \<longleftrightarrow>
      (\<forall>n < 48. (if n < 32 then bit v n else bit v (n - 32)) = bit v n)"
    by (auto simp: bit_eq_iff mem0 mem0_copy_bits bit_simps)
  also have "\<dots> \<longleftrightarrow> (\<forall>n < 16. bit v n = bit v (32 + n))"
  proof (rule iffI; intro allI impI)
    fix n :: nat
    assume all: "\<forall>n < 48. (if n < 32 then bit v n else bit v (n - 32)) = bit v n" and "n < 16"
    then show "bit v n = bit v (32 + n)" using all [rule_format, of "32 + n"] by simp
  next
    fix n :: nat
    assume all: "\<forall>n < 16. bit v n = bit v (32 + n)" and "n < 48"
    then show "(if n < 32 then bit v n else bit v (n - 32)) = bit v n"
      using all [rule_format, of "n - 32"] by simp
  qed
  also have "\<dots> \<longleftrightarrow> (get_bits 47 32 v :: u16) = get_bits 15 0 v"
    by (auto simp: bit_eq_iff bit_get)
  finally show ?thesis .
qed

theorem ecp3_mem0_address_witness:
  "\<exists>s'. ipnuma_ioctl (example_host ecp3_rd ecp3_wr) (cmd_code generic_ioc SETMEM0PADDR) 0x1000 example_state
        = Inr (0, s')
      \<and> mem0_paddr (dev_of s') \<noteq> ucast (0x0706050403020100 :: u64)"
proof -
  let ?h = "example_host ecp3_rd ecp3_wr"
  have run: "ipnuma_ioctl ?h (cmd_code (abi ?h) SETMEM0PADDR) 0x1000 example_state =
      Inr (0, example_state\<lparr>dev_of := ecp3_set SETMEM0PADDR [0, 1, 2, 3] example_regs\<rparr>)"
    using ecp3_set_run [of ?h example_state SETMEM0PADDR 4 "0x1000" "[0, 1, 2, 3]"] by simp
  have "(get_bits 47 32 (0x0706050403020100 :: u64) :: u16) \<noteq> get_bits 15 0 (0x0706050403020100 :: u64)"
    by (simp add: get_bits_def)
  with run ecp3_mem0_address [of ?h example_state "0x1000" "0x0706050403020100", OF _ _ _ _ run]
  show ?thesis by simp
qed

section \<open>Reading back\<close>

context mmio_window
begin

lemma set_get:
  assumes "ioc_encoding (abi h)" and h: "rd_mmio h = rd" "wr_mmio h = wr"
    and acts: "action_of sc = Write_regs [(off, n)]" "action_of gc = Read_regs [(off, n)]"
    and plain: "\<And>i. i < n \<Longrightarrow> plain (off + i)" and n: "n \<le> 2 ^ 64"
    and set_c: "ipnuma_ioctl h (cmd_code (abi h) sc) p s = Inr (z1, s1)"
    and get_c: "ipnuma_ioctl h (cmd_code (abi h) gc) q s1 = Inr (z2, s2)"
  shows "load_bytes (mem_of s2) q n = load_bytes (mem_of s) p n"
proof -
  note run = ioc_encoding.ioctl_performs [OF assms(1) refl]
  from set_c have "copy_in h off p n s = Inr s1" by (simp add: run acts)
  moreover from get_c have "copy_out h off q n s1 = Inr s2" by (simp add: run acts)
  ultimately show ?thesis using copy_in_out [OF h plain n] by blast
qed

end

text \<open>
  On the ECP3 board a GET of an address or MAC, issued after a SET of it, returns the
  bytes of the SET, whatever pointers the two requests use.
\<close>

lemma ecp3_set_get:
  assumes "ioc_encoding (abi h)" and "rd_mmio h = ecp3_rd" and "wr_mmio h = ecp3_wr"
    and pair: "(sc, gc, n) \<in> {(SETIFV4ADDR, GETIFV4ADDR, 4), (SETIFMACADDR, GETIFMACADDR, 6),
      (SETDESTV4ADDR, GETDESTV4ADDR, 4), (SETDESTMACADDR, GETDESTMACADDR, 6)}"
    and "ipnuma_ioctl h (cmd_code (abi h) sc) p s = Inr (z1, s1)"
    and "ipnuma_ioctl h (cmd_code (abi h) gc) q s1 = Inr (z2, s2)"
  shows "load_bytes (mem_of s2) q n = load_bytes (mem_of s) p n"
proof -
  from pair obtain off where "action_of sc = Write_regs [(off, n)]"
    and "action_of gc = Read_regs [(off, n)]" and "off + n \<le> 10 \<or> 16 \<le> off \<and> off + n \<le> 26"
    by auto
  with pair show ?thesis
    using ecp3.set_get [OF assms(1-3) _ _ _ _ assms(5,6)] by (auto simp: ecp3_plain_def)
qed


text \<open>
  GETMEM0PADDR copies both halves of the register to the start of the caller's buffer: the second
  copy replaces the first, and the upper four bytes of the buffer are left as they were.
\<close>

lemma get_mem0_bytes:
  assumes "ioc_encoding (abi h)"
    and run: "ipnuma_ioctl h (cmd_code (abi h) GETMEM0PADDR) p s = Inr (z, s')"
  shows "load_bytes (mem_of s') p 4 = Some (rd_range (rd_mmio h) (dev_of s) 0x2c 4)"
    and "load_bytes (mem_of s') (p + 4) 4 = load_bytes (mem_of s) (p + 4) 4"
proof -
  from run obtain s1 where c1: "copy_out h 0x28 p 4 s = Inr s1" and c2: "copy_out h 0x2c p 4 s1 = Inr s'"
    by (auto simp: ioc_encoding.ioctl_performs [OF assms(1) refl] then_do_Inr_iff)
  from c2 obtain m where m: "store_bytes (mem_of s1) p (rd_range (rd_mmio h) (dev_of s1) 0x2c 4) = Some m"
    and s': "s' = s1\<lparr>mem_of := m\<rparr>"
    by (auto simp: copy_out_def split: if_splits option.splits)
  have "dev_of s1 = dev_of s" using copy_out_effect [OF c1] by simp
  then show "load_bytes (mem_of s') p 4 = Some (rd_range (rd_mmio h) (dev_of s) 0x2c 4)"
    using load_after_store [OF m] s' by simp
  have away: "x \<notin> span p 4" if "x \<in> span (p + 4) 4" for x
  proof -
    have "x - (p + 4) = x - p - 4" by simp
    with that have "unat (x - p - 4) < 4"
      using in_span_iff [of 4 x "p + 4"] by simp
    then have "\<not> unat (x - p) < 4"
      by (simp add: unat_sub_if' split: if_splits)
    then show ?thesis using in_span_iff [of 4 x p] by simp
  qed
  show "load_bytes (mem_of s') (p + 4) 4 = load_bytes (mem_of s) (p + 4) 4"
    using copy_out_effect [OF c1] copy_out_effect [OF c2] away
    by (intro load_bytes_cong) auto
qed

section \<open>Faults and frame\<close>

fun touches_mmio :: "ipnuma_cmd \<Rightarrow> bool" where
  "touches_mmio c = (c \<notin> {RESET, GETPADDR, GETBARADDR})"

fun arg_len :: "ipnuma_cmd \<Rightarrow> nat" where
  "arg_len c =
     (if c = RESET then 0
      else if c \<in> {GETPADDR, GETBARADDR} then 8
      else if c \<in> {GETIFMACADDR, SETIFMACADDR, GETDESTMACADDR, SETDESTMACADDR} then 6 else 4)"

lemma copy_out_dom: "copy_out h off p n s = Inr s' \<Longrightarrow> dom (mem_of s') = dom (mem_of s)"
proof -
  assume "copy_out h off p n s = Inr s'"
  then obtain m where "store_bytes (mem_of s) p (rd_range (rd_mmio h) (dev_of s) off n) = Some m"
    and "s' = s\<lparr>mem_of := m\<rparr>"
    by (auto simp: copy_out_def split: if_splits option.splits)
  then show ?thesis using store_bytes_dom by simp
qed

lemma copy_out_twice:
  "(\<exists>s'. then_do (copy_out h off p n s) (copy_out h off' p n) = Inr s') \<longleftrightarrow>
     mmio0_ptr (drv_of s) \<noteq> 0 \<and> span p n \<subseteq> dom (mem_of s)"
  unfolding then_do_ok_iff copy_out_ok_iff
  using copy_out_ok_iff [of h off p n s] copy_out_dom copy_out_effect by metis

lemma copy_in_twice:
  "(\<exists>s'. then_do (copy_in h off p n s) (copy_in h off' p n) = Inr s') \<longleftrightarrow>
     mmio0_ptr (drv_of s) \<noteq> 0 \<and> span p n \<subseteq> dom (mem_of s)"
  unfolding then_do_ok_iff copy_in_ok_iff
  using copy_in_ok_iff [of h off p n s] copy_in_effect by metis

lemma translate_ok:
  "(\<exists>r. (case load_u64 (mem_of s) p of
      None \<Rightarrow> Inl Bad_pointer | Some va \<Rightarrow> return_0 (store_out p (f va) s)) = Inr r) \<longleftrightarrow>
     span p 8 \<subseteq> dom (mem_of s)"
  using load_bytes_iff [of "mem_of s" p 8]
  by (auto simp: load_u64_def return_0_ok_iff store_out_ok_iff split: option.splits)

lemmas request_ok_iff =
  return_0_ok_iff copy_out_ok_iff copy_in_ok_iff store_out_ok_iff copy_out_twice copy_in_twice
  translate_ok

lemma request_completes_iff:
  assumes "ioc_encoding (abi h)"
  shows "(\<exists>r. ipnuma_ioctl h (cmd_code (abi h) c) p s = Inr r) \<longleftrightarrow>
    (touches_mmio c \<longrightarrow> mmio0_ptr (drv_of s) \<noteq> 0) \<and> span p (arg_len c) \<subseteq> dom (mem_of s)"
proof -
  note run = ioc_encoding.ioctl_performs [OF assms refl]
  show ?thesis
    by (cases c) (simp_all add: run request_ok_iff del: split_paired_Ex)
qed

text \<open>
  Property C10: a request of the driver completes exactly when its register window is mapped (if it
  touches the board) and the bytes its argument points to are mapped; otherwise the kernel faults.
  No other check is made on the pointer.
\<close>

theorem ioctl_completes_iff:
  assumes "ioc_encoding (abi h)"
  shows "(\<exists>r. ipnuma_ioctl h (cmd_code (abi h) c) p s = Inr r) \<longleftrightarrow>
    (touches_mmio c \<longrightarrow> mmio0_ptr (drv_of s) \<noteq> 0) \<and> span p (arg_len c) \<subseteq> dom (mem_of s)"
  using assms by (rule request_completes_iff)

theorem ioctl_completes_iff_witness:
  "(\<exists>r. ipnuma_ioctl (example_host ecp3_rd ecp3_wr) (cmd_code generic_ioc GETIFMACADDR) 0x1000 example_state = Inr r)
   \<and> \<not> (\<exists>r. ipnuma_ioctl (example_host ecp3_rd ecp3_wr) (cmd_code generic_ioc GETIFMACADDR) 0x1000
          (example_state\<lparr>mem_of := Map.empty\<rparr>) = Inr r)"
proof -
  note iff = ioctl_completes_iff [of "example_host ecp3_rd ecp3_wr" GETIFMACADDR "0x1000"]
  have "0x1000 \<in> span (0x1000 :: u64) 6" by (simp add: in_span_iff)
  then have "\<not> span (0x1000 :: u64) 6 \<subseteq> dom Map.empty" by auto
  with iff [of example_state] iff [of "example_state\<lparr>mem_of := Map.empty\<rparr>"] show ?thesis
    by simp
qed

lemma ex_cmd:
  "(\<exists>c. P c) \<longleftrightarrow> P RESET \<or> P GETPADDR \<or> P GETIFV4ADDR \<or> P SETIFV4ADDR \<or> P GETIFMACADDR
     \<or> P SETIFMACADDR \<or> P GETDESTV4ADDR \<or> P SETDESTV4ADDR \<or> P GETDESTMACADDR \<or> P SETDESTMACADDR
     \<or> P GETMEM0PADDR \<or> P SETMEM0PADDR \<or> P GETBARADDR"
proof
  assume "\<exists>c. P c"
  then obtain c where "P c" ..
  then show "P RESET \<or> P GETPADDR \<or> P GETIFV4ADDR \<or> P SETIFV4ADDR \<or> P GETIFMACADDR
     \<or> P SETIFMACADDR \<or> P GETDESTV4ADDR \<or> P SETDESTV4ADDR \<or> P GETDESTMACADDR \<or> P SETDESTMACADDR
     \<or> P GETMEM0PADDR \<or> P SETMEM0PADDR \<or> P GETBARADDR"
    by (cases c) simp_all
qed blast

lemma ioctl_is_action: "\<exists>c. ipnuma_ioctl h cmd p s = perform h p s (action_of c)"
  unfolding ipnuma_ioctl_def Let_def ex_cmd by simp

text \<open>What every request keeps: the driver's variables, memory away from the argument.\<close>

definition framed :: "u64 \<Rightarrow> 'd kstate \<Rightarrow> 'd kstate \<Rightarrow> bool" where
  "framed p s s' \<longleftrightarrow> drv_of s' = drv_of s \<and> (\<forall>x. x \<notin> span p 8 \<longrightarrow> mem_of s' x = mem_of s x)"

lemma copies_out_frame:
  "copies (\<lambda>off n. copy_out h off p n) ws s = Inr s' \<Longrightarrow> \<forall>w \<in> set ws. snd w \<le> 8 \<Longrightarrow>
     framed p s s' \<and> dev_of s' = dev_of s"
proof (induction ws arbitrary: s)
  case Nil
  then show ?case by (simp add: framed_def)
next
  case (Cons w ws)
  from Cons.prems obtain s1 where s1: "copy_out h (fst w) p (snd w) s = Inr s1"
    and "copies (\<lambda>off n. copy_out h off p n) ws s1 = Inr s'"
    by (auto simp: then_do_Inr_iff)
  then have "framed p s1 s' \<and> dev_of s' = dev_of s1"
    using Cons.IH Cons.prems(2) by simp
  with copy_out_effect [OF s1] span_mono [of "snd w" 8 p] Cons.prems(2) show ?case
    by (auto simp: framed_def)
qed

lemma copies_in_frame:
  "copies (\<lambda>off n. copy_in h off p n) ws s = Inr s' \<Longrightarrow> drv_of s' = drv_of s \<and> mem_of s' = mem_of s"
  by (induction ws arbitrary: s) (fastforce simp: then_do_Inr_iff dest: copy_in_effect)+

lemma action_window: "action_of c = Read_regs ws \<Longrightarrow> \<forall>w \<in> set ws. snd w \<le> 8"
  by (cases c) auto

text \<open>
  Whatever the command, a completed request returns 0 or -ENOTTY, keeps the driver's
  variables, changes memory only in the eight bytes its argument points to, and never changes both
  memory and the board.
\<close>

lemma request_frame:
  assumes "ipnuma_ioctl h cmd p s = Inr (z, s')"
  shows "z \<in> {0, - ENOTTY} \<and> framed p s s' \<and> (dev_of s' = dev_of s \<or> mem_of s' = mem_of s)"
proof -
  obtain c where c: "perform h p s (action_of c) = Inr (z, s')"
    using assms ioctl_is_action [of h cmd p s] by auto
  show ?thesis
  proof (cases "action_of c")
    case (Read_regs ws)
    with c action_window [OF Read_regs] show ?thesis
      by (auto dest: copies_out_frame)
  next
    case (Write_regs ws)
    with c show ?thesis by (auto simp: framed_def dest: copies_in_frame)
  qed (use c store_out_effect in \<open>auto simp: framed_def split: option.splits\<close>)
qed

lemma copies_out_dom:
  "copies (\<lambda>off n. copy_out h off p n) ws s = Inr s' \<Longrightarrow> dom (mem_of s') = dom (mem_of s)"
proof (induction ws arbitrary: s)
  case (Cons w ws)
  then obtain s1 where "copy_out h (fst w) p (snd w) s = Inr s1"
    and "copies (\<lambda>off n. copy_out h off p n) ws s1 = Inr s'"
    by (auto simp: then_do_Inr_iff)
  then show ?case using Cons.IH copy_out_dom by simp
qed simp

lemma store_out_dom:
  assumes "store_out p v s = Inr s'"
  shows "dom (mem_of s') = dom (mem_of s)"
proof -
  from assms obtain m where "store_bytes (mem_of s) p (to_le 8 v) = Some m" and "s' = s\<lparr>mem_of := m\<rparr>"
    by (auto simp: store_out_def store_u64_def split: option.splits)
  then show ?thesis using store_bytes_dom by simp
qed

text \<open>No request maps or unmaps memory.\<close>

lemma request_dom:
  assumes "ipnuma_ioctl h cmd p s = Inr (z, s')"
  shows "dom (mem_of s') = dom (mem_of s)"
proof -
  obtain c where c: "perform h p s (action_of c) = Inr (z, s')"
    using assms ioctl_is_action [of h cmd p s] by auto
  show ?thesis
  proof (cases "action_of c")
    case Translate
    with c obtain v where "store_out p v s = Inr s'" by (auto split: option.splits)
    then show ?thesis by (rule store_out_dom)
  next
    case (Read_regs ws)
    with c have "copies (\<lambda>off n. copy_out h off p n) ws s = Inr s'" by simp
    then show ?thesis by (rule copies_out_dom)
  next
    case (Write_regs ws)
    with c have "copies (\<lambda>off n. copy_in h off p n) ws s = Inr s'" by simp
    from copies_in_frame [OF this] show ?thesis by simp
  next
    case Bar2_start
    with c have "store_out p (mmio1_start (drv_of s)) s = Inr s'" by simp
    then show ?thesis by (rule store_out_dom)
  next
    case Unsupported
    with c show ?thesis by simp
  qed
qed

end
