(* ===== verification/Lifecycle.thy ===== *)
theory Lifecycle
  imports Registers
begin

text \<open>
  Binding and unbinding of the IP-NUMA driver: \<open>ipnuma_init_one\<close>, \<open>ipnuma_remove_one\<close> and the
  module entry points of \<open>software/driver/ipnuma.c\<close>.  The kernel services it calls are parameters:
  \<open>probe_env\<close> holds what each call answers.  Every acquisition and release of a kernel resource and
  every assignment to the driver's variables is recorded in a trace: its balance tells what a run
  leaves behind, and a machine that runs it event by event what programs see in between.
\<close>

section \<open>Kernel resources and traces\<close>

datatype resource =
    Enabled u64        \<comment> \<open>an enabled PCI device\<close>
  | Regions u64        \<comment> \<open>the reserved BAR regions of a device\<close>
  | Mapping u64        \<comment> \<open>an \<open>ioremap\<close> at a kernel address\<close>
  | Dma u64            \<comment> \<open>a coherent DMA buffer\<close>
  | Irq u64            \<comment> \<open>the interrupt handler of a device\<close>
  | Misc               \<comment> \<open>the registered misc device\<close>

text \<open>\<open>Assign d\<close> is an assignment to the driver's variables, which are \<open>d\<close> after it.\<close>

datatype kevent = Acquire resource | Release resource | Set_master u64 | Disable_irq u64 | Assign drv

text \<open>How often a trace acquires a resource, less how often it releases it.\<close>

fun balance :: "kevent list \<Rightarrow> resource \<Rightarrow> int" where
  "balance [] r = 0"
| "balance (Acquire r' # tr) r = (if r = r' then 1 else 0) + balance tr r"
| "balance (Release r' # tr) r = (if r = r' then -1 else 0) + balance tr r"
| "balance (_ # tr) r = balance tr r"

lemma balance_append [simp]: "balance (tr @ tr') r = balance tr r + balance tr' r"
  by (induction tr r rule: balance.induct) simp_all

section \<open>Probe\<close>

record probe_env =
  enable_rc :: int            \<comment> \<open>\<open>pci_enable_device\<close>\<close>
  regions_rc :: int           \<comment> \<open>\<open>pci_request_regions\<close>\<close>
  bar0_res :: "u64 \<times> u64 \<times> u64 \<times> u64"  \<comment> \<open>start, end, flags and length of BAR 0\<close>
  bar2_res :: "u64 \<times> u64 \<times> u64 \<times> u64"
  ioremap_ret :: u64          \<comment> \<open>\<open>ioremap\<close> of BAR 0; 0 is NULL\<close>
  ioremap_wc_ret :: u64       \<comment> \<open>\<open>ioremap_wc\<close> of BAR 2\<close>
  dma_ret :: u64              \<comment> \<open>\<open>dma_alloc_coherent\<close>\<close>
  dma_handle :: u64           \<comment> \<open>and the bus address it hands back\<close>
  irq_rc :: int               \<comment> \<open>\<open>request_irq\<close>\<close>
  misc_rc :: int              \<comment> \<open>\<open>misc_register\<close>\<close>

definition DRV_NAME :: string where
  "DRV_NAME = ''ipnuma''"

text \<open>\<open>%d\<close> of \<open>sprintf\<close>.\<close>

fun dec_digits :: "nat \<Rightarrow> string" where
  "dec_digits n = (if n < 10 then [char_of (48 + n)] else dec_digits (n div 10) @ [char_of (48 + n mod 10)])"

declare dec_digits.simps [simp del]

definition format_d :: "int \<Rightarrow> string" where
  "format_d i = (if i < 0 then ''-'' @ dec_digits (nat (- i)) else dec_digits (nat i))"

text \<open>The error exit of the probe.\<close>

definition err_out :: "u64 \<Rightarrow> kevent list \<Rightarrow> drv \<Rightarrow> int \<times> kevent list \<times> drv" where
  "err_out pdev tr d = (-1, tr @ [Release (Regions pdev), Release (Enabled pdev)], d)"

definition ipnuma_init_one :: "probe_env \<Rightarrow> u64 \<Rightarrow> drv \<Rightarrow> int \<times> kevent list \<times> drv" where
  "ipnuma_init_one e pdev d =
     (let d = d\<lparr>mmio0_ptr := 0\<rparr>; tr = [Assign d];
          d = d\<lparr>mmio1_ptr := 0\<rparr>; tr = tr @ [Assign d];
          d = d\<lparr>dma_virt_ptr := 0\<rparr>; tr = tr @ [Assign d];
          d = d\<lparr>dma_phys_ptr := 0\<rparr>; tr = tr @ [Assign d] in
      if enable_rc e \<noteq> 0 then err_out pdev tr d
      else
      let tr = tr @ [Acquire (Enabled pdev)] in
      if regions_rc e \<noteq> 0 then err_out pdev tr d
      else
      let tr = tr @ [Acquire (Regions pdev)];
          d = d\<lparr>board_idx := board_idx d + 1\<rparr>; tr = tr @ [Assign d, Set_master pdev];
          d = (case bar0_res e of (start, fin, flags, len) \<Rightarrow>
                 d\<lparr>mmio0_start := start, mmio0_end := fin, mmio0_flags := flags, mmio0_len := len\<rparr>);
          tr = tr @ [Assign d];
          tr = (if ioremap_ret e \<noteq> 0 then tr @ [Acquire (Mapping (ioremap_ret e))] else tr);
          d = d\<lparr>mmio0_ptr := ioremap_ret e\<rparr>; tr = tr @ [Assign d] in
      if mmio0_ptr d = 0 then err_out pdev tr d
      else
      let d = (case bar2_res e of (start, fin, flags, len) \<Rightarrow>
                 d\<lparr>mmio1_start := start, mmio1_end := fin, mmio1_flags := flags, mmio1_len := len\<rparr>);
          tr = tr @ [Assign d];
          tr = (if ioremap_wc_ret e \<noteq> 0 then tr @ [Acquire (Mapping (ioremap_wc_ret e))] else tr);
          d = d\<lparr>mmio1_ptr := ioremap_wc_ret e\<rparr>; tr = tr @ [Assign d] in
      if mmio1_ptr d = 0 then err_out pdev tr d
      else
      let tr = (if dma_ret e \<noteq> 0 then tr @ [Acquire (Dma (dma_ret e))] else tr);
          d = d\<lparr>dma_virt_ptr := dma_ret e, dma_phys_ptr := dma_handle e\<rparr>; tr = tr @ [Assign d] in
      if dma_virt_ptr d = 0 then err_out pdev tr d
      else
      let tr = (if irq_rc e \<noteq> 0 then tr else tr @ [Acquire (Irq pdev)]);
          d = d\<lparr>pcidev := pdev\<rparr>; tr = tr @ [Assign d];
          d = d\<lparr>dev_name := DRV_NAME @ ''/'' @ format_d (board_idx d)\<rparr>; tr = tr @ [Assign d];
          rc = misc_rc e in
      if rc \<noteq> 0 then (rc, tr, d)
      else
      let tr = tr @ [Acquire Misc];
          d = d\<lparr>queues_ready := True\<rparr> in
      (0, tr @ [Assign d], d))"

text \<open>A machine where every call succeeds.\<close>

definition example_probe :: probe_env where
  "example_probe = \<lparr>enable_rc = 0, regions_rc = 0, bar0_res = (0xE0000000, 0xE0000FFF, 0, 0x1000),
     bar2_res = (0xEC000000, 0xEC03FFFF, 0, 0x40000), ioremap_ret = 0x10000, ioremap_wc_ret = 0x20000,
     dma_ret = 0x30000, dma_handle = 0x40000, irq_rc = 0, misc_rc = 0\<rparr>"

section \<open>Remove\<close>

definition ipnuma_remove_one :: "u64 \<Rightarrow> drv \<Rightarrow> kevent list \<times> drv" where
  "ipnuma_remove_one pdev d =
     (let tr = [Disable_irq pdev, Release (Irq pdev)];
          (tr, d) = (if mmio0_ptr d \<noteq> 0
                     then let tr = tr @ [Release (Mapping (mmio0_ptr d))]; d = d\<lparr>mmio0_ptr := 0\<rparr> in (tr @ [Assign d], d)
                     else (tr, d));
          (tr, d) = (if mmio1_ptr d \<noteq> 0
                     then let tr = tr @ [Release (Mapping (mmio1_ptr d))]; d = d\<lparr>mmio1_ptr := 0\<rparr> in (tr @ [Assign d], d)
                     else (tr, d));
          tr = (if dma_virt_ptr d \<noteq> 0 then tr @ [Release (Dma (dma_virt_ptr d))] else tr) in
      (tr @ [Release (Regions pdev), Release (Enabled pdev), Release Misc], d))"

section \<open>What a probe leaves\<close>

text \<open>The calls whose failure the probe reports: all but \<open>request_irq\<close>.\<close>

definition probe_ok :: "probe_env \<Rightarrow> bool" where
  "probe_ok e \<longleftrightarrow> enable_rc e = 0 \<and> regions_rc e = 0 \<and> ioremap_ret e \<noteq> 0 \<and> ioremap_wc_ret e \<noteq> 0
     \<and> dma_ret e \<noteq> 0 \<and> misc_rc e = 0"

text \<open>What a successful probe holds, and what a failed one leaves held or gives back twice.\<close>

definition probe_holds :: "probe_env \<Rightarrow> u64 \<Rightarrow> resource list" where
  "probe_holds e pdev =
     [Enabled pdev, Regions pdev, Mapping (ioremap_ret e), Mapping (ioremap_wc_ret e),
      Dma (dma_ret e), Misc] @ (if irq_rc e = 0 then [Irq pdev] else [])"

definition probe_leaks :: "probe_env \<Rightarrow> u64 \<Rightarrow> resource list" where
  "probe_leaks e pdev =
     (if enable_rc e \<noteq> 0 \<or> regions_rc e \<noteq> 0 \<or> ioremap_ret e = 0 then []
      else if ioremap_wc_ret e = 0 then [Mapping (ioremap_ret e)]
      else if dma_ret e = 0 then [Mapping (ioremap_ret e), Mapping (ioremap_wc_ret e)]
      else [Enabled pdev, Regions pdev, Mapping (ioremap_ret e), Mapping (ioremap_wc_ret e),
            Dma (dma_ret e)] @ (if irq_rc e = 0 then [Irq pdev] else []))"

definition probe_over_released :: "probe_env \<Rightarrow> u64 \<Rightarrow> resource list" where
  "probe_over_released e pdev =
     (if enable_rc e \<noteq> 0 then [Regions pdev, Enabled pdev]
      else if regions_rc e \<noteq> 0 then [Regions pdev] else [])"

lemma probe_returns:
  "ipnuma_init_one e pdev d = (rc, tr, d') \<Longrightarrow> rc = 0 \<longleftrightarrow> probe_ok e"
  unfolding ipnuma_init_one_def err_out_def probe_ok_def Let_def
  by (auto split: if_splits prod.splits)

text \<open>The exits of the probe, one by one.\<close>

lemma probe_exits:
  obtains "enable_rc e \<noteq> 0" | "enable_rc e = 0" "regions_rc e \<noteq> 0"
    | "enable_rc e = 0" "regions_rc e = 0" "ioremap_ret e = 0"
    | "enable_rc e = 0" "regions_rc e = 0" "ioremap_ret e \<noteq> 0" "ioremap_wc_ret e = 0"
    | "enable_rc e = 0" "regions_rc e = 0" "ioremap_ret e \<noteq> 0" "ioremap_wc_ret e \<noteq> 0" "dma_ret e = 0"
    | "enable_rc e = 0" "regions_rc e = 0" "ioremap_ret e \<noteq> 0" "ioremap_wc_ret e \<noteq> 0" "dma_ret e \<noteq> 0"
      "misc_rc e \<noteq> 0"
    | "enable_rc e = 0" "regions_rc e = 0" "ioremap_ret e \<noteq> 0" "ioremap_wc_ret e \<noteq> 0" "dma_ret e \<noteq> 0"
      "misc_rc e = 0"
  by blast

lemma success_trace:
  assumes "ipnuma_init_one e pdev d = (0, tr, d')"
  shows "balance tr r = int (count_list (probe_holds e pdev) r)
     \<and> mmio0_ptr d' = ioremap_ret e \<and> mmio1_ptr d' = ioremap_wc_ret e
     \<and> mmio1_start d' = fst (bar2_res e) \<and> dma_virt_ptr d' = dma_ret e
     \<and> pcidev d' = pdev \<and> board_idx d' = board_idx d + 1 \<and> queues_ready d'
     \<and> ioremap_ret e \<noteq> 0 \<and> ioremap_wc_ret e \<noteq> 0 \<and> dma_ret e \<noteq> 0"
proof -
  obtain a1 a2 a3 a4 where bar0: "bar0_res e = (a1, a2, a3, a4)" by (cases "bar0_res e")
  obtain b1 b2 b3 b4 where bar2: "bar2_res e = (b1, b2, b3, b4)" by (cases "bar2_res e")
  note defs = ipnuma_init_one_def err_out_def probe_holds_def Let_def bar0 bar2
  show ?thesis
    by (rule probe_exits [of e]) (use assms in \<open>auto simp: defs split: if_splits\<close>)
qed

lemma failed_probe_trace:
  assumes "ipnuma_init_one e pdev d = (rc, tr, d')" and "rc \<noteq> 0"
  shows "balance tr r =
       int (count_list (probe_leaks e pdev) r) - int (count_list (probe_over_released e pdev) r)"
proof -
  obtain a1 a2 a3 a4 where bar0: "bar0_res e = (a1, a2, a3, a4)" by (cases "bar0_res e")
  obtain b1 b2 b3 b4 where bar2: "bar2_res e = (b1, b2, b3, b4)" by (cases "bar2_res e")
  note defs = ipnuma_init_one_def err_out_def probe_leaks_def probe_over_released_def Let_def bar0 bar2
  show ?thesis
    by (rule probe_exits [of e]) (use assms in \<open>auto simp: defs split: if_splits\<close>)
qed

text \<open>
  Property C17: the probe succeeds (returns 0) exactly when every kernel call but \<open>request_irq\<close>
  succeeds, and then it holds the device, its regions, both mappings, the DMA buffer and the
  registered misc device once each, and the interrupt if that was granted; the driver's pointers
  are the ones the kernel gave out.
\<close>

theorem probe_success:
  assumes "ipnuma_init_one e pdev d = (rc, tr, d')"
  shows "(rc = 0 \<longleftrightarrow> probe_ok e)
    \<and> (rc = 0 \<longrightarrow> balance tr r = int (count_list (probe_holds e pdev) r)
        \<and> mmio0_ptr d' = ioremap_ret e \<and> mmio1_ptr d' = ioremap_wc_ret e
        \<and> mmio1_start d' = fst (bar2_res e) \<and> dma_virt_ptr d' = dma_ret e
        \<and> pcidev d' = pdev \<and> board_idx d' = board_idx d + 1 \<and> queues_ready d')"
proof (intro conjI impI)
  show ok: "rc = 0 \<longleftrightarrow> probe_ok e" using assms by (rule probe_returns)
qed (use assms success_trace [of e pdev d tr d' r] in simp_all)

theorem probe_success_witness:
  "\<exists>tr d'. ipnuma_init_one example_probe 1 example_drv = (0, tr, d') \<and> balance tr (Irq 1) = 1
     \<and> mmio0_ptr d' = 0x10000 \<and> board_idx d' = 1"
proof -
  obtain rc tr d' where run: "ipnuma_init_one example_probe 1 example_drv = (rc, tr, d')"
    by (cases "ipnuma_init_one example_probe 1 example_drv")
  then show ?thesis
    using probe_success [OF run, of "Irq 1"]
    by (auto simp: probe_ok_def probe_holds_def example_probe_def example_drv_def)
qed

text \<open>
  Property C18: the exact ledger of a failed probe.  It returns every resource only when the first
  \<open>ioremap\<close> is what failed: an earlier failure releases regions or a device that were never taken,
  a later one leaves mappings, and a failed \<open>misc_register\<close> leaves everything.
\<close>

theorem failed_probe_ledger:
  assumes "ipnuma_init_one e pdev d = (rc, tr, d')" and "rc \<noteq> 0"
  shows "balance tr r =
      int (count_list (probe_leaks e pdev) r) - int (count_list (probe_over_released e pdev) r)"
  using assms by (rule failed_probe_trace)

theorem failed_probe_ledger_witness:
  "\<exists>tr d'. ipnuma_init_one (example_probe\<lparr>dma_ret := 0\<rparr>) 1 example_drv = (-1, tr, d')
     \<and> balance tr (Mapping 0x20000) = 1 \<and> balance tr (Regions 1) = 0"
proof -
  let ?e = "example_probe\<lparr>dma_ret := 0\<rparr>"
  obtain tr d' where run: "ipnuma_init_one ?e 1 example_drv = (-1, tr, d')"
    by (simp add: ipnuma_init_one_def err_out_def example_probe_def Let_def)
  then show ?thesis
    using failed_probe_ledger [OF run, of "Mapping 0x20000"] failed_probe_ledger [OF run, of "Regions 1"]
    by (simp add: probe_leaks_def probe_over_released_def example_probe_def)
qed

lemma probe_trace:
  "ipnuma_init_one e pdev d = (0, tr, d') \<Longrightarrow>
     balance tr r = int (count_list (probe_holds e pdev) r)
     \<and> mmio0_ptr d' = ioremap_ret e \<and> mmio1_ptr d' = ioremap_wc_ret e \<and> dma_virt_ptr d' = dma_ret e
     \<and> ioremap_ret e \<noteq> 0 \<and> ioremap_wc_ret e \<noteq> 0 \<and> dma_ret e \<noteq> 0 \<and> queues_ready d'"
  using success_trace by blast

lemma remove_trace:
  "ipnuma_remove_one pdev d = (tr, d') \<Longrightarrow>
     balance tr r = - int (count_list
       ([Irq pdev, Regions pdev, Enabled pdev, Misc]
        @ (if mmio0_ptr d \<noteq> 0 then [Mapping (mmio0_ptr d)] else [])
        @ (if mmio1_ptr d \<noteq> 0 then [Mapping (mmio1_ptr d)] else [])
        @ (if dma_virt_ptr d \<noteq> 0 then [Dma (dma_virt_ptr d)] else [])) r)
     \<and> mmio0_ptr d' = 0 \<and> mmio1_ptr d' = 0"
  unfolding ipnuma_remove_one_def Let_def
  by (auto split: if_splits)

lemma remove_ledger:
  assumes "ipnuma_init_one e pdev d = (0, tr, d1)" and "ipnuma_remove_one pdev d1 = (tr', d2)"
  shows "balance (tr @ tr') r = (if r = Irq pdev \<and> irq_rc e \<noteq> 0 then -1 else 0)"
  using probe_trace [OF assms(1), of r] remove_trace [OF assms(2), of r]
  by (auto simp: probe_holds_def)

text \<open>
  Property C19: a successful probe followed by the removal of the device releases everything the
  probe took, once each.  The one exception is an interrupt that \<open>request_irq\<close> refused: removal
  frees it although it was never granted.
\<close>

theorem probe_then_remove:
  assumes "ipnuma_init_one e pdev d = (0, tr, d1)" and "ipnuma_remove_one pdev d1 = (tr', d2)"
  shows "balance (tr @ tr') r = (if r = Irq pdev \<and> irq_rc e \<noteq> 0 then -1 else 0)"
  using assms by (rule remove_ledger)

lemma example_probe_runs:
  obtains tr d where "ipnuma_init_one (example_probe\<lparr>irq_rc := rc\<rparr>) pdev d0 = (0, tr, d)"
  by (simp add: ipnuma_init_one_def err_out_def example_probe_def Let_def)

theorem probe_then_remove_witness:
  "\<exists>tr d1 tr' d2. ipnuma_init_one (example_probe\<lparr>irq_rc := -22\<rparr>) 1 example_drv = (0, tr, d1)
     \<and> ipnuma_remove_one 1 d1 = (tr', d2) \<and> balance (tr @ tr') (Irq 1) = -1
     \<and> balance (tr @ tr') Misc = 0"
proof -
  obtain tr d1 where probe: "ipnuma_init_one (example_probe\<lparr>irq_rc := -22\<rparr>) 1 example_drv = (0, tr, d1)"
    by (rule example_probe_runs)
  obtain tr' d2 where remove: "ipnuma_remove_one 1 d1 = (tr', d2)" by fastforce
  show ?thesis
    using probe remove probe_then_remove [OF probe remove, of "Irq 1"]
      probe_then_remove [OF probe remove, of Misc]
    by (auto simp: example_probe_def)
qed

section \<open>Loading and unloading the module\<close>

text \<open>
  The driver hands its probe and remove functions to the PCI core, which decides for which devices
  it calls them: \<open>pci_register_driver\<close> and \<open>pci_unregister_driver\<close> are parameters that get the
  functions of \<open>ipnuma_pci_driver\<close> and the driver's variables.
\<close>

record pci_driver =
  drv_name :: string
  drv_probe :: "probe_env \<Rightarrow> u64 \<Rightarrow> drv \<Rightarrow> int \<times> kevent list \<times> drv"
  drv_remove :: "u64 \<Rightarrow> drv \<Rightarrow> kevent list \<times> drv"

definition ipnuma_pci_driver :: "pci_driver" where
  "ipnuma_pci_driver =
     \<lparr>drv_name = DRV_NAME, drv_probe = ipnuma_init_one, drv_remove = ipnuma_remove_one\<rparr>"

definition ipnuma_init ::
    "(pci_driver \<Rightarrow> drv \<Rightarrow> int \<times> kevent list \<times> drv) \<Rightarrow> drv \<Rightarrow> int \<times> kevent list \<times> drv" where
  "ipnuma_init pci_register_driver d = pci_register_driver ipnuma_pci_driver d"

definition ipnuma_cleanup ::
    "(pci_driver \<Rightarrow> drv \<Rightarrow> kevent list \<times> drv) \<Rightarrow> drv \<Rightarrow> kevent list \<times> drv" where
  "ipnuma_cleanup pci_unregister_driver d = pci_unregister_driver ipnuma_pci_driver d"

text \<open>
  A core that finds one board: it probes it when the driver registers, reports the registration
  as done whatever the probe answers, and removes the board when the driver goes, if it was bound.
\<close>

definition one_board_register :: "probe_env \<Rightarrow> u64 \<Rightarrow> pci_driver \<Rightarrow> drv \<Rightarrow> int \<times> kevent list \<times> drv" where
  "one_board_register e pdev drv d = (0, snd (drv_probe drv e pdev d))"

definition one_board_unregister :: "bool \<Rightarrow> u64 \<Rightarrow> pci_driver \<Rightarrow> drv \<Rightarrow> kevent list \<times> drv" where
  "one_board_unregister bound pdev drv d = (if bound then drv_remove drv pdev d else ([], d))"

lemma module_ledger:
  assumes "ipnuma_init (one_board_register e pdev) d = (rc, tr, d1)"
    and "ipnuma_cleanup (one_board_unregister (probe_ok e) pdev) d1 = (tr', d2)"
  shows "balance (tr @ tr') r =
    (if probe_ok e then (if r = Irq pdev \<and> irq_rc e \<noteq> 0 then -1 else 0)
     else int (count_list (probe_leaks e pdev) r) - int (count_list (probe_over_released e pdev) r))"
proof -
  obtain rc' where probe: "ipnuma_init_one e pdev d = (rc', tr, d1)"
    using assms(1) by (cases "ipnuma_init_one e pdev d")
      (auto simp: ipnuma_init_def one_board_register_def ipnuma_pci_driver_def)
  then have ok: "rc' = 0 \<longleftrightarrow> probe_ok e" by (rule probe_returns)
  show ?thesis
  proof (cases "probe_ok e")
    case True
    then have "ipnuma_remove_one pdev d1 = (tr', d2)"
      using assms(2) by (simp add: ipnuma_cleanup_def one_board_unregister_def ipnuma_pci_driver_def)
    from remove_ledger [OF _ this, of e d tr r] probe ok True show ?thesis by simp
  next
    case False
    then have "tr' = []"
      using assms(2) by (simp add: ipnuma_cleanup_def one_board_unregister_def ipnuma_pci_driver_def)
    with failed_probe_trace [OF probe, of r] ok False show ?thesis by simp
  qed
qed

section \<open>The driver as a state machine\<close>

text \<open>
  The driver with the boards of a machine and the programs that use its file.  The PCI core runs one
  probe or removal at a time, and the events of the code (calls and assignments, in the order of the
  trace) happen one by one: between any two of them files can be opened and closed and requests made.
  The misc device can be opened from the event that registers it to the one that deregisters it;
  nothing closes a file that is open.  A request that faults stops the machine with the fault recorded.
\<close>

datatype activity = Probing u64 int | Removing u64

record 'd system =
  kst :: "'d kstate"
  bound :: "u64 set"
  running :: "(activity \<times> kevent list) option"
  registered :: bool
  files :: nat
  fault_of :: "kfault option"

definition initial_drv :: drv where
  "initial_drv = \<lparr>mmio0_ptr = 0, mmio1_ptr = 0, dma_virt_ptr = 0, dma_phys_ptr = 0,
     mmio0_start = 0, mmio0_end = 0, mmio0_flags = 0, mmio0_len = 0,
     mmio1_start = 0, mmio1_end = 0, mmio1_flags = 0, mmio1_len = 0,
     pcidev = 0, queues_ready = False, board_idx = -1, dev_name = ''ipnuma''\<rparr>"

definition with_drv :: "drv \<Rightarrow> 'd system \<Rightarrow> 'd system" where
  "with_drv d s = s\<lparr>kst := (kst s)\<lparr>drv_of := d\<rparr>\<rparr>"

fun happen :: "kevent \<Rightarrow> 'd system \<Rightarrow> 'd system" where
  "happen (Acquire Misc) s = s\<lparr>registered := True\<rparr>"
| "happen (Release Misc) s = s\<lparr>registered := False\<rparr>"
| "happen (Assign d) s = with_drv d s"
| "happen _ s = s"

primrec finished :: "activity \<Rightarrow> u64 set \<Rightarrow> u64 set" where
  "finished (Probing pdev rc) B = (if rc = 0 then insert pdev B else B)"
| "finished (Removing pdev) B = B - {pdev}"

inductive sys_step :: "'d host \<Rightarrow> u64 set \<Rightarrow> 'd system \<Rightarrow> 'd system \<Rightarrow> bool" for h boards where
  probe: "fault_of s = None \<Longrightarrow> running s = None \<Longrightarrow> pdev \<in> boards \<Longrightarrow> pdev \<notin> bound s \<Longrightarrow>
     ipnuma_init_one e pdev (drv_of (kst s)) = (rc, tr, d) \<Longrightarrow>
     sys_step h boards s (s\<lparr>running := Some (Probing pdev rc, tr)\<rparr>)"
| remove: "fault_of s = None \<Longrightarrow> running s = None \<Longrightarrow> pdev \<in> bound s \<Longrightarrow>
     ipnuma_remove_one pdev (drv_of (kst s)) = (tr, d) \<Longrightarrow>
     sys_step h boards s (s\<lparr>running := Some (Removing pdev, tr)\<rparr>)"
| event: "fault_of s = None \<Longrightarrow> running s = Some (a, ev # evs) \<Longrightarrow>
     sys_step h boards s (happen ev s\<lparr>running := Some (a, evs)\<rparr>)"
| finish: "fault_of s = None \<Longrightarrow> running s = Some (a, []) \<Longrightarrow>
     sys_step h boards s (s\<lparr>running := None, bound := finished a (bound s)\<rparr>)"
| opened: "fault_of s = None \<Longrightarrow> registered s \<Longrightarrow> sys_step h boards s (s\<lparr>files := files s + 1\<rparr>)"
| released: "fault_of s = None \<Longrightarrow> 0 < files s \<Longrightarrow> sys_step h boards s (s\<lparr>files := files s - 1\<rparr>)"
| ioctl: "fault_of s = None \<Longrightarrow> 0 < files s \<Longrightarrow> ipnuma_ioctl h cmd p (kst s) = Inr (z, k) \<Longrightarrow>
     sys_step h boards s (s\<lparr>kst := k\<rparr>)"
| ioctl_fault: "fault_of s = None \<Longrightarrow> 0 < files s \<Longrightarrow> ipnuma_ioctl h cmd p (kst s) = Inl f \<Longrightarrow>
     sys_step h boards s (s\<lparr>fault_of := Some f\<rparr>)"

inductive sys_reach :: "'d host \<Rightarrow> u64 set \<Rightarrow> 'd system \<Rightarrow> bool" for h boards where
  loaded: "sys_reach h boards \<lparr>kst = \<lparr>drv_of = initial_drv, mem_of = m, dev_of = b\<rparr>,
     bound = {}, running = None, registered = False, files = 0, fault_of = None\<rparr>"
| step: "sys_reach h boards s \<Longrightarrow> sys_step h boards s t \<Longrightarrow> sys_reach h boards t"

lemma sys_reach_steps: "(sys_step h boards)\<^sup>*\<^sup>* s t \<Longrightarrow> sys_reach h boards s \<Longrightarrow> sys_reach h boards t"
  by (induction rule: rtranclp_induct) (auto intro: sys_reach.step)

section \<open>Requests and null pointers\<close>

lemma copies_null_out:
  "copies (\<lambda>off n. copy_out h off p n) ws s = Inl Null_mmio \<Longrightarrow> mmio0_ptr (drv_of s) = 0"
proof (induction ws arbitrary: s)
  case (Cons w ws)
  show ?case
  proof (cases "copy_out h (fst w) p (snd w) s")
    case (Inl f)
    with Cons.prems have "copy_out h (fst w) p (snd w) s = Inl Null_mmio" by simp
    then show ?thesis by (auto simp: copy_out_def split: if_splits option.splits)
  next
    case (Inr s1)
    with Cons.IH [of s1] Cons.prems show ?thesis using copy_out_effect [OF Inr] by simp
  qed
qed simp

lemma copies_null_in:
  "copies (\<lambda>off n. copy_in h off p n) ws s = Inl Null_mmio \<Longrightarrow> mmio0_ptr (drv_of s) = 0"
proof (induction ws arbitrary: s)
  case (Cons w ws)
  show ?case
  proof (cases "copy_in h (fst w) p (snd w) s")
    case (Inl f)
    with Cons.prems have "copy_in h (fst w) p (snd w) s = Inl Null_mmio" by simp
    then show ?thesis by (auto simp: copy_in_def split: if_splits option.splits)
  next
    case (Inr s1)
    with Cons.IH [of s1] Cons.prems show ?thesis using copy_in_effect [OF Inr] by simp
  qed
qed simp

lemma return_0_Inl_iff: "return_0 r = Inl f \<longleftrightarrow> r = Inl f"
  by (cases r) (simp_all add: return_0_def)

lemma perform_null: "perform h p s a = Inl Null_mmio \<Longrightarrow> mmio0_ptr (drv_of s) = 0"
  by (cases a)
    (auto simp: return_0_Inl_iff store_out_def split: option.splits
       dest: copies_null_out copies_null_in)

lemma ioctl_null: "ipnuma_ioctl h cmd p s = Inl Null_mmio \<Longrightarrow> mmio0_ptr (drv_of s) = 0"
  using ioctl_is_action [of h cmd p s] perform_null by metis

lemma ioctl_drv: "ipnuma_ioctl h cmd p s = Inr (z, s') \<Longrightarrow> drv_of s' = drv_of s"
  using request_frame [of h cmd p s z s'] by (simp add: framed_def)

lemma null_request:
  assumes "ioc_encoding (abi h)" and "mmio0_ptr (drv_of s) = 0" and "touches_mmio c"
  shows "ipnuma_ioctl h (cmd_code (abi h) c) p s = Inl Null_mmio"
  using assms(2,3)
  by (cases c)
    (simp_all add: ioc_encoding.ioctl_performs [OF assms(1) refl] copy_out_def copy_in_def return_0_def)

section \<open>Traces in the machine\<close>

text \<open>
  What a trace does to the two things programs depend on: whether the misc device is registered, and
  the register pointer.  \<open>along A E\<close> holds when they satisfy \<open>A\<close> before and after each event and \<open>E\<close> at
  the end.
\<close>

primrec reg_after :: "kevent \<Rightarrow> bool \<Rightarrow> bool" where
  "reg_after (Acquire r) reg = (if r = Misc then True else reg)"
| "reg_after (Release r) reg = (if r = Misc then False else reg)"
| "reg_after (Set_master p) reg = reg"
| "reg_after (Disable_irq p) reg = reg"
| "reg_after (Assign d) reg = reg"

primrec ptr_after :: "kevent \<Rightarrow> u64 \<Rightarrow> u64" where
  "ptr_after (Acquire r) ptr = ptr"
| "ptr_after (Release r) ptr = ptr"
| "ptr_after (Set_master p) ptr = ptr"
| "ptr_after (Disable_irq p) ptr = ptr"
| "ptr_after (Assign d) ptr = mmio0_ptr d"

primrec along :: "(bool \<Rightarrow> u64 \<Rightarrow> bool) \<Rightarrow> (bool \<Rightarrow> u64 \<Rightarrow> bool) \<Rightarrow> kevent list \<Rightarrow> bool \<Rightarrow> u64 \<Rightarrow> bool" where
  "along A E [] reg ptr = (A reg ptr \<and> E reg ptr)"
| "along A E (ev # evs) reg ptr = (A reg ptr \<and> along A E evs (reg_after ev reg) (ptr_after ev ptr))"

lemma happen_frame [simp]:
  "registered (happen ev s) = reg_after ev (registered s)"
  "mmio0_ptr (drv_of (kst (happen ev s))) = ptr_after ev (mmio0_ptr (drv_of (kst s)))"
  "bound (happen ev s) = bound s" "files (happen ev s) = files s" "fault_of (happen ev s) = fault_of s"
  "running (happen ev s) = running s"
  by (cases "(ev, s)" rule: happen.cases; simp add: with_drv_def)+

text \<open>
  The probe registers the device only when the pointer is set, and not at all when it fails; the
  removal deregisters it.
\<close>

lemma probe_along:
  assumes "ipnuma_init_one e pdev d = (rc, tr, d')"
  shows "along (\<lambda>reg ptr. reg \<longrightarrow> ptr \<noteq> 0) (\<lambda>reg ptr. reg \<longleftrightarrow> rc = 0) tr False ptr0"
proof -
  obtain a1 a2 a3 a4 where bar0: "bar0_res e = (a1, a2, a3, a4)" by (cases "bar0_res e")
  obtain b1 b2 b3 b4 where bar2: "bar2_res e = (b1, b2, b3, b4)" by (cases "bar2_res e")
  note defs = ipnuma_init_one_def err_out_def Let_def bar0 bar2
  show ?thesis
    by (rule probe_exits [of e]) (use assms in \<open>auto simp: defs split: if_splits\<close>)
qed

lemma remove_along:
  assumes "ipnuma_remove_one pdev d = (tr, d')"
  shows "along (\<lambda>_ _. True) (\<lambda>reg _. \<not> reg) tr reg ptr"
  using assms unfolding ipnuma_remove_one_def Let_def by (auto split: if_splits)

lemma along_now: "along A E tr reg ptr \<Longrightarrow> A reg ptr"
  by (cases tr) simp_all

section \<open>One board\<close>

text \<open>The states of a machine with one board, and what its programs can rely on.\<close>

definition one_board :: "u64 \<Rightarrow> 'd system \<Rightarrow> bool" where
  "one_board p s \<longleftrightarrow>
     (case running s of
        None \<Rightarrow> bound s \<subseteq> {p} \<and> (registered s \<longleftrightarrow> p \<in> bound s) \<and> (registered s \<longrightarrow> mmio0_ptr (drv_of (kst s)) \<noteq> 0)
      | Some (Probing q rc, tr) \<Rightarrow> q = p \<and> bound s = {}
          \<and> along (\<lambda>reg ptr. reg \<longrightarrow> ptr \<noteq> 0) (\<lambda>reg ptr. reg \<longleftrightarrow> rc = 0) tr (registered s) (mmio0_ptr (drv_of (kst s)))
      | Some (Removing q, tr) \<Rightarrow> q = p \<and> bound s = {p}
          \<and> along (\<lambda>_ _. True) (\<lambda>reg _. \<not> reg) tr (registered s) (mmio0_ptr (drv_of (kst s))))"

definition no_removal :: "'d system \<Rightarrow> bool" where
  "no_removal s \<longleftrightarrow> (\<forall>p tr. running s \<noteq> Some (Removing p, tr))"

lemma one_board_ptr:
  "one_board p s \<Longrightarrow> registered s \<Longrightarrow> no_removal s \<Longrightarrow> mmio0_ptr (drv_of (kst s)) \<noteq> 0"
  by (auto simp: one_board_def no_removal_def dest: along_now split: option.splits prod.splits activity.splits)

lemma one_board_cong:
  "running t = running s \<Longrightarrow> bound t = bound s \<Longrightarrow> registered t = registered s \<Longrightarrow>
     drv_of (kst t) = drv_of (kst s) \<Longrightarrow> one_board p t = one_board p s"
  by (simp add: one_board_def split: option.split activity.split)

lemma one_board_step:
  assumes "sys_step h {p} s t" and "one_board p s"
  shows "one_board p t"
  using assms(1)
proof cases
  case (probe pdev e rc tr d)
  with assms(2) have "bound s = {}" "\<not> registered s" by (auto simp: one_board_def)
  with probe probe_along [OF probe(6)] show ?thesis by (simp add: one_board_def)
next
  case (remove pdev tr d)
  with assms(2) have "bound s = {p}" "pdev = p" by (auto simp: one_board_def)
  with remove remove_along [OF remove(5)] show ?thesis by (simp add: one_board_def)
next
  case (event a ev evs)
  with assms(2) show ?thesis by (cases a) (simp_all add: one_board_def)
next
  case (finish a)
  with assms(2) show ?thesis by (cases a) (auto simp: one_board_def)
next
  case (ioctl cmd q z k)
  with assms(2) ioctl_drv [OF ioctl(4)] one_board_cong [of t s p] show ?thesis by simp
qed (use assms(2) one_board_cong [of t s p] in \<open>simp_all\<close>)

lemma one_board_reach: "sys_reach h {p} s \<Longrightarrow> one_board p s"
  by (induction rule: sys_reach.induct) (simp add: one_board_def, rule one_board_step)

lemma no_removal_cong: "running t = running s \<Longrightarrow> no_removal t = no_removal s"
  by (simp add: no_removal_def)

lemma fault_reach:
  "sys_reach h {p} s \<Longrightarrow> fault_of s = Some Null_mmio \<Longrightarrow> \<not> (registered s \<and> no_removal s)"
proof (induction rule: sys_reach.induct)
  case (step s t)
  from step.hyps(2) show ?case
  proof cases
    case (ioctl_fault cmd q f)
    with step.prems have "mmio0_ptr (drv_of (kst s)) = 0" by (simp add: ioctl_null)
    with one_board_ptr [OF one_board_reach [OF step.hyps(1)]] have "\<not> (registered s \<and> no_removal s)" by blast
    with ioctl_fault show ?thesis by (simp add: no_removal_def)
  qed (use step in \<open>simp_all add: with_drv_def\<close>)
qed simp

section \<open>Running a trace\<close>

text \<open>The events of an activity, run with nothing in between.\<close>

lemma system_running_same: "running s = r \<Longrightarrow> s\<lparr>running := r\<rparr> = s" for s :: "'d system"
  by (cases s) simp

lemma run_events:
  "fault_of s = None \<Longrightarrow> running s = Some (a, evs @ rest) \<Longrightarrow>
     (sys_step h boards)\<^sup>*\<^sup>* s (fold happen evs s\<lparr>running := Some (a, rest)\<rparr>)"
proof (induction evs arbitrary: s)
  case (Cons ev evs)
  let ?s1 = "happen ev s\<lparr>running := Some (a, evs @ rest)\<rparr>"
  have comm: "happen e (x\<lparr>running := r\<rparr>) = happen e x\<lparr>running := r\<rparr>" for e x r
    by (cases "(e, x)" rule: happen.cases) (simp_all add: with_drv_def)
  have fold_comm: "fold happen es (x\<lparr>running := r\<rparr>) = fold happen es x\<lparr>running := r\<rparr>" for es x r
    by (induction es arbitrary: x) (simp_all add: comm)
  have "sys_step h boards s ?s1"
    using Cons.prems by (intro event) simp_all
  moreover have "(sys_step h boards)\<^sup>*\<^sup>* ?s1 (fold happen evs ?s1\<lparr>running := Some (a, rest)\<rparr>)"
    using Cons.prems by (intro Cons.IH) simp_all
  ultimately show ?case by (simp add: fold_comm converse_rtranclp_into_rtranclp)
qed (simp add: system_running_same)

lemma fold_happen [simp]:
  "registered (fold happen evs s) = fold reg_after evs (registered s)"
  "mmio0_ptr (drv_of (kst (fold happen evs s))) = fold ptr_after evs (mmio0_ptr (drv_of (kst s)))"
  "bound (fold happen evs s) = bound s" "files (fold happen evs s) = files s"
  "fault_of (fold happen evs s) = fault_of s"
  by (induction evs arbitrary: s) simp_all

text \<open>The removal up to its last event, and the whole of it.\<close>

lemma remove_split:
  assumes "ipnuma_remove_one pdev d = (tr, d')"
  obtains evs where "tr = evs @ [Release Misc]" "fold reg_after evs reg = reg" "fold ptr_after evs (mmio0_ptr d) = 0"
  using assms that [of "butlast tr"] unfolding ipnuma_remove_one_def Let_def
  by (auto split: if_splits)

lemma null_fault:
  assumes "ioc_encoding (abi h)" and "touches_mmio c" and "mmio0_ptr (drv_of (kst t)) = 0"
    and "fault_of t = None" and "0 < files t"
  shows "ipnuma_ioctl h (cmd_code (abi h) c) arg (kst t) = Inl Null_mmio
    \<and> sys_step h boards t (t\<lparr>fault_of := Some Null_mmio\<rparr>)"
  using null_request [OF assms(1,3,2)] assms(4,5) by (auto intro: ioctl_fault)

text \<open>A board is bound and a program opens it.\<close>

lemma example_reach:
  assumes "p \<in> boards"
  obtains s where "sys_reach (example_host ecp3_rd ecp3_wr) boards s" "bound s = {p}" "running s = None"
    "registered s" "0 < files s" "fault_of s = None"
proof -
  let ?h = "example_host ecp3_rd ecp3_wr"
  let ?s0 = "\<lparr>kst = \<lparr>drv_of = initial_drv, mem_of = (\<lambda>_. None), dev_of = example_regs\<rparr>,
     bound = {}, running = None, registered = False, files = 0, fault_of = None\<rparr>"
  obtain tr d where d: "ipnuma_init_one (example_probe\<lparr>irq_rc := 0\<rparr>) p initial_drv = (0, tr, d)"
    by (rule example_probe_runs)
  have reg: "fold reg_after tr False"
    using d by (auto simp: ipnuma_init_one_def err_out_def example_probe_def Let_def)
  let ?s1 = "?s0\<lparr>running := Some (Probing p 0, tr)\<rparr>"
  let ?s2 = "fold happen tr ?s1\<lparr>running := Some (Probing p 0, [])\<rparr>"
  let ?s3 = "?s2\<lparr>running := None, bound := finished (Probing p 0) (bound ?s2)\<rparr>"
  have "sys_step ?h boards ?s0 ?s1" using assms d by (intro probe) simp_all
  moreover have "(sys_step ?h boards)\<^sup>*\<^sup>* ?s1 ?s2" by (rule run_events) simp_all
  moreover have "sys_step ?h boards ?s2 ?s3" by (rule finish) simp_all
  moreover have "sys_step ?h boards ?s3 (?s3\<lparr>files := files ?s3 + 1\<rparr>)" by (rule opened) (simp_all add: reg)
  ultimately have "(sys_step ?h boards)\<^sup>*\<^sup>* ?s0 (?s3\<lparr>files := files ?s3 + 1\<rparr>)"
    by (meson converse_rtranclp_into_rtranclp rtranclp.rtrancl_into_rtrancl)
  then have "sys_reach ?h boards (?s3\<lparr>files := files ?s3 + 1\<rparr>)"
    by (rule sys_reach_steps) (rule loaded)
  then show ?thesis by (rule that) (simp_all add: reg)
qed

section \<open>Properties of the machine\<close>

text \<open>
  Property C20: with one board in the machine, whatever is probed, removed, opened and requested in
  whatever order: while the misc device is registered and no removal runs, no request, by whichever
  open file, reads or writes registers through a null pointer, not even while the probe is still
  running; and when neither probe nor removal runs, the misc device is registered exactly if the
  board is bound.
\<close>

theorem bound_board_no_null_access:
  assumes "sys_reach h {p} s"
  shows "(registered s \<and> no_removal s \<longrightarrow>
      ipnuma_ioctl h cmd arg (kst s) \<noteq> Inl Null_mmio \<and> fault_of s \<noteq> Some Null_mmio)
    \<and> (running s = None \<longrightarrow> (registered s \<longleftrightarrow> p \<in> bound s))"
proof (intro conjI impI)
  note inv = one_board_reach [OF assms]
  assume "registered s \<and> no_removal s"
  then show "ipnuma_ioctl h cmd arg (kst s) \<noteq> Inl Null_mmio" and "fault_of s \<noteq> Some Null_mmio"
    using one_board_ptr [OF inv] ioctl_null [of h cmd arg "kst s"] fault_reach [OF assms] by blast+
next
  assume "running s = None"
  then show "registered s \<longleftrightarrow> p \<in> bound s"
    using one_board_reach [OF assms] by (simp add: one_board_def)
qed

theorem bound_board_no_null_access_witness:
  "\<exists>s. sys_reach (example_host ecp3_rd ecp3_wr) {7} s \<and> bound s = {7} \<and> registered s \<and> 0 < files s
     \<and> ipnuma_ioctl (example_host ecp3_rd ecp3_wr) (cmd_code generic_ioc GETIFV4ADDR) 0 (kst s) \<noteq> Inl Null_mmio"
proof -
  obtain s where s: "sys_reach (example_host ecp3_rd ecp3_wr) {7} s" "bound s = {7}" "running s = None"
    "registered s" "0 < files s" by (rule example_reach [of 7 "{7}"]) simp
  then show ?thesis
    using bound_board_no_null_access [OF s(1), of "cmd_code generic_ioc GETIFV4ADDR" 0]
    by (auto simp: no_removal_def)
qed

text \<open>
  Property C21: removal is not safe against programs.  From any reachable state of a machine with one
  board, bound and at rest: the removal comes to a point where a program that has not opened the file
  before still can, and each of its requests to the board then dereferences a null pointer, because
  the code clears the pointer before it deregisters the device; and when the removal is complete a
  file that was open stays open, and each request to the board through it does the same.
\<close>

theorem removal_window:
  assumes "sys_reach h {p} s" and "p \<in> bound s" and "running s = None" and "fault_of s = None"
    and "ioc_encoding (abi h)" and "touches_mmio c"
  shows "(\<exists>t evs. (sys_step h {p})\<^sup>*\<^sup>* s t \<and> running t = Some (Removing p, evs) \<and> files t = files s
      \<and> sys_step h {p} t (t\<lparr>files := files t + 1\<rparr>)
      \<and> (\<forall>arg. ipnuma_ioctl h (cmd_code (abi h) c) arg (kst t) = Inl Null_mmio)
      \<and> sys_step h {p} (t\<lparr>files := files t + 1\<rparr>) (t\<lparr>files := files t + 1, fault_of := Some Null_mmio\<rparr>))
    \<and> (\<exists>t. (sys_step h {p})\<^sup>*\<^sup>* s t \<and> running t = None \<and> bound t = {} \<and> \<not> registered t \<and> files t = files s
      \<and> (\<forall>arg. ipnuma_ioctl h (cmd_code (abi h) c) arg (kst t) = Inl Null_mmio)
      \<and> (0 < files s \<longrightarrow> sys_step h {p} t (t\<lparr>fault_of := Some Null_mmio\<rparr>)))"
proof -
  have reg: "registered s" and bound: "bound s = {p}"
    using one_board_reach [OF assms(1)] assms(2,3) by (auto simp: one_board_def)
  obtain tr d where rm: "ipnuma_remove_one p (drv_of (kst s)) = (tr, d)" by fastforce
  from remove_split [OF rm, of True] obtain evs where tr: "tr = evs @ [Release Misc]"
    and last: "fold reg_after evs True" and null: "fold ptr_after evs (mmio0_ptr (drv_of (kst s))) = 0"
    by auto
  define s1 where "s1 = s\<lparr>running := Some (Removing p, tr)\<rparr>"
  have s1: "sys_step h {p} s s1" unfolding s1_def by (rule remove [OF assms(4,3,2) rm])
  define t where "t = fold happen evs s1\<lparr>running := Some (Removing p, [Release Misc])\<rparr>"
  have "(sys_step h {p})\<^sup>*\<^sup>* s1 t"
    unfolding t_def by (rule run_events) (simp_all add: s1_def assms(4) tr)
  with s1 have t: "(sys_step h {p})\<^sup>*\<^sup>* s t" by (rule converse_rtranclp_into_rtranclp)
  have t_fields: "running t = Some (Removing p, [Release Misc])" "registered t" "files t = files s"
    "fault_of t = None" "mmio0_ptr (drv_of (kst t)) = 0" "bound t = {p}"
    by (simp_all add: t_def s1_def reg last null assms(4) bound)
  define u where "u = happen (Release Misc) t\<lparr>running := Some (Removing p, [])\<rparr>"
  define v where "v = u\<lparr>running := None, bound := finished (Removing p) (bound u)\<rparr>"
  have "sys_step h {p} t u" unfolding u_def by (rule event) (simp_all add: t_fields)
  moreover have "sys_step h {p} u v" unfolding v_def by (rule finish) (simp_all add: u_def t_fields)
  ultimately have v: "(sys_step h {p})\<^sup>*\<^sup>* s v" using t by (meson rtranclp.rtrancl_into_rtrancl)
  have v_fields: "running v = None" "bound v = {}" "\<not> registered v" "files v = files s" "fault_of v = None"
    "mmio0_ptr (drv_of (kst v)) = 0"
    by (simp_all add: v_def u_def t_fields)
  note null_req = null_request [OF assms(5) _ assms(6)]
  have "sys_step h {p} t (t\<lparr>files := files t + 1\<rparr>)" by (rule opened) (simp_all add: t_fields)
  moreover have "sys_step h {p} (t\<lparr>files := files t + 1\<rparr>) (t\<lparr>files := files t + 1, fault_of := Some Null_mmio\<rparr>)"
    using null_fault [OF assms(5,6), of "t\<lparr>files := files t + 1\<rparr>"] by (simp add: t_fields)
  moreover have "0 < files s \<longrightarrow> sys_step h {p} v (v\<lparr>fault_of := Some Null_mmio\<rparr>)"
    using null_fault [OF assms(5,6), of v] by (simp add: v_fields)
  ultimately show ?thesis
    using t v by (intro conjI exI [of _ t] exI [of _ "[Release Misc]"] exI [of _ v])
      (simp_all add: t_fields v_fields null_req)
qed

theorem removal_window_witness:
  "\<exists>s t evs. sys_reach (example_host ecp3_rd ecp3_wr) {7} s \<and> bound s = {7}
     \<and> running t = Some (Removing 7, evs)
     \<and> sys_step (example_host ecp3_rd ecp3_wr) {7} t (t\<lparr>files := files t + 1\<rparr>)
     \<and> ipnuma_ioctl (example_host ecp3_rd ecp3_wr) (cmd_code generic_ioc GETIFV4ADDR) 0x1000 (kst t) = Inl Null_mmio"
proof -
  obtain s where s: "sys_reach (example_host ecp3_rd ecp3_wr) {7} s" "bound s = {7}" "running s = None"
    "fault_of s = None" by (rule example_reach [of 7 "{7}"]) simp
  have "\<exists>t evs. (sys_step (example_host ecp3_rd ecp3_wr) {7})\<^sup>*\<^sup>* s t \<and> running t = Some (Removing 7, evs) \<and> files t = files s
      \<and> sys_step (example_host ecp3_rd ecp3_wr) {7} t (t\<lparr>files := files t + 1\<rparr>)
      \<and> (\<forall>arg. ipnuma_ioctl (example_host ecp3_rd ecp3_wr) (cmd_code (abi (example_host ecp3_rd ecp3_wr)) GETIFV4ADDR) arg (kst t) = Inl Null_mmio)
      \<and> sys_step (example_host ecp3_rd ecp3_wr) {7} (t\<lparr>files := files t + 1\<rparr>) (t\<lparr>files := files t + 1, fault_of := Some Null_mmio\<rparr>)"
    by (rule removal_window [OF s(1) _ s(3,4), THEN conjunct1]) (simp_all add: s(2))
  then obtain t evs where "running t = Some (Removing 7, evs)"
    "sys_step (example_host ecp3_rd ecp3_wr) {7} t (t\<lparr>files := files t + 1\<rparr>)"
    "\<forall>arg. ipnuma_ioctl (example_host ecp3_rd ecp3_wr) (cmd_code generic_ioc GETIFV4ADDR) arg (kst t) = Inl Null_mmio"
    by (simp only: example_simps) blast
  with s(1,2) show ?thesis by blast
qed



end
