(* ===== verification/Pingpong.thy ===== *)
theory Pingpong
  imports Registers
begin

text \<open>
  The ping-pong benchmark over IP-NUMA, \<open>software/pingpong/ipnuma_pingpong.c\<close>: the two endless
  loops of the server and the client as programs over one shared cell each, with the remote stores
  of the partner in flight between them.  Every access to the volatile \<open>rdata\<close> is a step of its
  own, so the steps of the two machines and of the network interleave freely.
\<close>

section \<open>The two loops\<close>

definition PP_LIMIT :: int where
  "PP_LIMIT = 2000000"

text \<open>Where each program is: the line of the next access.\<close>

datatype server_pc = S_wait | S_while | S_save | S_write | S_poll | S_inc | S_done
datatype client_pc = C_save | C_write | C_poll | C_inc

text \<open>
  The variables of both programs, and the stores each has sent to the other's \<open>rdata\<close> that have
  not arrived, oldest first.
\<close>

record pingpong =
  spc :: server_pc
  s_rdata :: int
  s_rdata2 :: int
  s_sdata :: int
  cpc :: client_pc
  c_rdata :: int
  c_rdata2 :: int
  c_sdata :: int
  to_s :: "int list"
  to_c :: "int list"

definition server_step :: "pingpong \<Rightarrow> pingpong" where
  "server_step s =
     (case spc s of
        S_wait \<Rightarrow> if s_rdata s < 0 then s else s\<lparr>spc := S_while\<rparr>
      | S_while \<Rightarrow> if s_rdata s < PP_LIMIT then s\<lparr>spc := S_save\<rparr> else s\<lparr>spc := S_done\<rparr>
      | S_save \<Rightarrow> s\<lparr>s_rdata2 := s_rdata s, spc := S_write\<rparr>
      | S_write \<Rightarrow> s\<lparr>to_c := to_c s @ [s_sdata s], spc := S_poll\<rparr>
      | S_poll \<Rightarrow> if s_rdata s = s_rdata2 s then s else s\<lparr>spc := S_inc\<rparr>
      | S_inc \<Rightarrow> s\<lparr>s_sdata := s_rdata s + 1, spc := S_while\<rparr>
      | S_done \<Rightarrow> s)"

definition client_step :: "pingpong \<Rightarrow> pingpong" where
  "client_step s =
     (case cpc s of
        C_save \<Rightarrow> s\<lparr>c_rdata2 := c_rdata s, cpc := C_write\<rparr>
      | C_write \<Rightarrow> s\<lparr>to_s := to_s s @ [c_sdata s], cpc := C_poll\<rparr>
      | C_poll \<Rightarrow> if c_rdata s = c_rdata2 s then s else s\<lparr>cpc := C_inc\<rparr>
      | C_inc \<Rightarrow> s\<lparr>c_sdata := c_rdata s + 1, cpc := C_save\<rparr>)"

text \<open>
  Both programs after \<open>rdata = -1\<close>; the locals \<open>rdata2\<close> have no value yet (\<open>j\<close>, \<open>k\<close>).
\<close>

definition pp_start :: "int \<Rightarrow> int \<Rightarrow> pingpong" where
  "pp_start j k = \<lparr>spc = S_wait, s_rdata = -1, s_rdata2 = j, s_sdata = 0,
     cpc = C_save, c_rdata = -1, c_rdata2 = k, c_sdata = 0, to_s = [], to_c = []\<rparr>"

text \<open>One step of the system.  A \<open>lossy\<close> network may drop a frame, and with it the store.\<close>

inductive pp_step :: "bool \<Rightarrow> pingpong \<Rightarrow> pingpong \<Rightarrow> bool" for lossy where
  server: "pp_step lossy s (server_step s)"
| client: "pp_step lossy s (client_step s)"
| arrive_s: "to_s s = v # vs \<Longrightarrow> pp_step lossy s (s\<lparr>to_s := vs, s_rdata := v\<rparr>)"
| arrive_c: "to_c s = v # vs \<Longrightarrow> pp_step lossy s (s\<lparr>to_c := vs, c_rdata := v\<rparr>)"
| drop_s: "lossy \<Longrightarrow> to_s s = v # vs \<Longrightarrow> pp_step lossy s (s\<lparr>to_s := vs\<rparr>)"
| drop_c: "lossy \<Longrightarrow> to_c s = v # vs \<Longrightarrow> pp_step lossy s (s\<lparr>to_c := vs\<rparr>)"

inductive pp_reach :: "bool \<Rightarrow> pingpong \<Rightarrow> bool" for lossy where
  start: "pp_reach lossy (pp_start j k)"
| step: "pp_reach lossy s \<Longrightarrow> pp_step lossy s t \<Longrightarrow> pp_reach lossy t"

section \<open>The invariant: one message at a time\<close>

text \<open>
  In round \<open>r\<close> the client sends \<open>ping r\<close> and the server answers \<open>2 * r\<close>; \<open>seen r\<close> is what the
  client holds when it sends.
\<close>

definition ping :: "nat \<Rightarrow> int" where
  "ping r = (if r = 0 then 0 else 2 * int r - 1)"

definition pong :: "nat \<Rightarrow> int" where
  "pong r = 2 * int r"

definition seen :: "nat \<Rightarrow> int" where
  "seen r = (if r = 0 then -1 else pong (r - 1))"

definition server_waits :: "nat \<Rightarrow> pingpong \<Rightarrow> bool" where
  "server_waits r s \<longleftrightarrow>
     (if r = 0 then spc s = S_wait \<and> s_rdata s = -1 \<and> s_sdata s = 0
      else spc s = S_poll \<and> s_rdata s = ping (r - 1) \<and> s_rdata2 s = ping (r - 1))"

definition client_waits :: "nat \<Rightarrow> pingpong \<Rightarrow> bool" where
  "client_waits r s \<longleftrightarrow> cpc s = C_poll \<and> c_rdata s = seen r \<and> c_rdata2 s = seen r"

definition client_turn :: "nat \<Rightarrow> pingpong \<Rightarrow> bool" where
  "client_turn r s \<longleftrightarrow> c_rdata s = seen r \<and>
     (case cpc s of
        C_poll \<Rightarrow> 0 < r \<and> c_rdata2 s = seen (r - 1)
      | C_inc \<Rightarrow> 0 < r
      | C_save \<Rightarrow> c_sdata s = ping r
      | C_write \<Rightarrow> c_sdata s = ping r \<and> c_rdata2 s = seen r)"

definition server_turn :: "nat \<Rightarrow> pingpong \<Rightarrow> bool" where
  "server_turn r s \<longleftrightarrow> s_rdata s = ping r \<and>
     (case spc s of
        S_wait \<Rightarrow> r = 0 \<and> s_sdata s = 0
      | S_poll \<Rightarrow> 0 < r \<and> s_rdata2 s = ping (r - 1)
      | S_inc \<Rightarrow> 0 < r
      | S_while \<Rightarrow> s_sdata s = pong r
      | S_save \<Rightarrow> s_sdata s = pong r \<and> ping r < PP_LIMIT
      | S_write \<Rightarrow> s_sdata s = pong r \<and> s_rdata2 s = ping r \<and> ping r < PP_LIMIT
      | S_done \<Rightarrow> PP_LIMIT \<le> ping r)"

text \<open>Whose turn it is in round \<open>r\<close>, or which message is in flight, or that one was lost.\<close>

datatype turn = Client_turn | Ping | Server_turn | Pong | Lost_ping | Lost_pong

fun in_turn :: "turn \<Rightarrow> nat \<Rightarrow> pingpong \<Rightarrow> bool" where
  "in_turn Client_turn r s = (client_turn r s \<and> server_waits r s \<and> to_s s = [] \<and> to_c s = [])"
| "in_turn Ping r s = (client_waits r s \<and> server_waits r s \<and> to_s s = [ping r] \<and> to_c s = [])"
| "in_turn Server_turn r s = (client_waits r s \<and> server_turn r s \<and> to_s s = [] \<and> to_c s = [])"
| "in_turn Pong r s = (client_waits r s \<and> server_waits (Suc r) s \<and> ping r < PP_LIMIT
     \<and> to_s s = [] \<and> to_c s = [pong r])"
| "in_turn Lost_ping r s = (client_waits r s \<and> server_waits r s \<and> to_s s = [] \<and> to_c s = [])"
| "in_turn Lost_pong r s = (client_waits r s \<and> server_waits (Suc r) s \<and> ping r < PP_LIMIT
     \<and> to_s s = [] \<and> to_c s = [])"

definition round_ok :: "nat \<Rightarrow> bool" where
  "round_ok r \<longleftrightarrow> r = 0 \<or> ping (r - 1) < PP_LIMIT"

definition pp_inv :: "bool \<Rightarrow> pingpong \<Rightarrow> bool" where
  "pp_inv lossy s \<longleftrightarrow>
     (\<exists>k r. in_turn k r s \<and> round_ok r \<and> (\<not> lossy \<longrightarrow> k \<noteq> Lost_ping \<and> k \<noteq> Lost_pong))"

lemmas turn_defs =
  server_waits_def client_waits_def client_turn_def server_turn_def server_step_def client_step_def

lemma ping_less [simp]: "0 < r \<Longrightarrow> ping (r - 1) < ping r"
  by (auto simp: ping_def)

lemma ping_Suc: "ping (Suc r) = pong r + 1" and seen_Suc: "seen (Suc r) = pong r"
  by (simp_all add: ping_def pong_def seen_def)

lemma ping_pred: "0 < r \<Longrightarrow> ping r = seen r + 1" and pong_ping: "0 < r \<Longrightarrow> pong r = ping r + 1"
  by (auto simp: ping_def pong_def seen_def)

lemma seen_less: "0 < r \<Longrightarrow> seen (r - 1) < seen r"
  by (auto simp: seen_def pong_def)

lemma ping_ge [simp]: "0 \<le> ping r"
  by (simp add: ping_def)

lemma ping_0 [simp]: "ping 0 = 0" and pong_0 [simp]: "pong 0 = 0" and seen_0 [simp]: "seen 0 = -1"
  by (simp_all add: ping_def pong_def seen_def)

text \<open>A waiting program spins, and a program whose turn it is stays in its turn or sends.\<close>

lemma waiting_spins:
  "client_waits r s \<Longrightarrow> client_step s = s"
  "server_waits r s \<Longrightarrow> server_step s = s"
  by (auto simp: turn_defs split: if_splits)

lemma client_turn_step:
  assumes "client_turn r s" and "to_s s = []"
  shows "(client_turn r (client_step s) \<and> to_s (client_step s) = [])
    \<or> (client_waits r (client_step s) \<and> to_s (client_step s) = [ping r])"
  using assms seen_less [of r] ping_pred [of r]
  by (auto simp: turn_defs split: client_pc.splits)

lemma client_step_keeps [simp]:
  "spc (client_step s) = spc s" "s_rdata (client_step s) = s_rdata s"
  "s_rdata2 (client_step s) = s_rdata2 s" "s_sdata (client_step s) = s_sdata s"
  "to_c (client_step s) = to_c s" "c_rdata (client_step s) = c_rdata s"
  by (simp_all add: client_step_def split: client_pc.splits)

lemma server_step_keeps [simp]:
  "cpc (server_step s) = cpc s" "c_rdata (server_step s) = c_rdata s"
  "c_rdata2 (server_step s) = c_rdata2 s" "c_sdata (server_step s) = c_sdata s"
  "to_s (server_step s) = to_s s" "s_rdata (server_step s) = s_rdata s"
  by (simp_all add: server_step_def split: server_pc.splits)

lemma waits_other_step [simp]:
  "server_waits r (client_step s) = server_waits r s"
  "client_waits r (server_step s) = client_waits r s"
  by (simp_all add: server_waits_def client_waits_def)

lemma server_turn_step:
  assumes "server_turn r s" and "to_c s = []"
  shows "(server_turn r (server_step s) \<and> to_c (server_step s) = [])
    \<or> (server_waits (Suc r) (server_step s) \<and> ping r < PP_LIMIT \<and> to_c (server_step s) = [pong r])"
  using assms ping_less [of r] pong_ping [of r]
  by (auto simp: turn_defs split: server_pc.splits)

lemma arrive_ping:
  "server_waits r s \<Longrightarrow> server_turn r (s\<lparr>to_s := vs, s_rdata := ping r\<rparr>)"
  using ping_less [of r] by (auto simp: server_waits_def server_turn_def split: if_splits)

lemma arrive_pong:
  "client_waits r s \<Longrightarrow> client_turn (Suc r) (s\<lparr>to_c := vs, c_rdata := pong r\<rparr>)"
  by (simp add: client_waits_def client_turn_def seen_Suc)

lemma waits_update [simp]:
  "client_waits r (s\<lparr>to_s := vs\<rparr>) = client_waits r s"
  "client_waits r (s\<lparr>s_rdata := v\<rparr>) = client_waits r s"
  "client_waits r (s\<lparr>to_c := vs\<rparr>) = client_waits r s"
  "server_waits r (s\<lparr>to_s := vs\<rparr>) = server_waits r s"
  "server_waits r (s\<lparr>to_c := vs\<rparr>) = server_waits r s"
  "server_waits r (s\<lparr>c_rdata := v\<rparr>) = server_waits r s"
  by (simp_all add: client_waits_def server_waits_def)

inductive_cases pp_stepE: "pp_step lossy s t"

lemma turn_step:
  assumes "in_turn k r s" and "pp_step lossy s t" and "round_ok r"
    and "\<not> lossy \<longrightarrow> k \<noteq> Lost_ping \<and> k \<noteq> Lost_pong"
  shows "pp_inv lossy t"
proof -
  have next_turn: "pp_inv lossy t"
    if "in_turn k' r' t" "round_ok r'" "lossy \<or> k' \<noteq> Lost_ping \<and> k' \<noteq> Lost_pong" for k' r'
    unfolding pp_inv_def using that by blast
  show ?thesis
  proof (cases k)
    case Client_turn
    then show ?thesis
      using assms client_turn_step [of r s] waiting_spins(2) [of r s]
        next_turn [of Client_turn r] next_turn [of Ping r]
      by (auto elim!: pp_stepE)
  next
    case Ping
    then show ?thesis
      using assms arrive_ping [of r s "[]"] waiting_spins [of r s]
        next_turn [of Ping r] next_turn [of Server_turn r] next_turn [of Lost_ping r]
      by (auto elim!: pp_stepE)
  next
    case Server_turn
    then show ?thesis
      using assms server_turn_step [of r s] waiting_spins(1) [of r s]
        next_turn [of Server_turn r] next_turn [of Pong r]
      by (auto elim!: pp_stepE)
  next
    case Pong
    then have "round_ok (Suc r)" using assms(1) by (simp add: round_ok_def)
    with Pong show ?thesis
      using assms arrive_pong [of r s "[]"] waiting_spins(1) [of r s] waiting_spins(2) [of "Suc r" s]
        next_turn [of Pong r] next_turn [of Client_turn "Suc r"] next_turn [of Lost_pong r]
      by (auto elim!: pp_stepE)
  next
    case Lost_ping
    then show ?thesis
      using assms waiting_spins [of r s] next_turn [of Lost_ping r]
      by (auto elim!: pp_stepE)
  next
    case Lost_pong
    then show ?thesis
      using assms waiting_spins(1) [of r s] waiting_spins(2) [of "Suc r" s] next_turn [of Lost_pong r]
      by (auto elim!: pp_stepE)
  qed
qed

lemma pp_inv_reach: "pp_reach lossy s \<Longrightarrow> pp_inv lossy s"
proof (induction rule: pp_reach.induct)
  case (start j k)
  have "in_turn Client_turn 0 (pp_start j k)"
    by (simp add: pp_start_def turn_defs)
  then show ?case unfolding pp_inv_def round_ok_def by blast
next
  case (step s t)
  then show ?case by (auto simp: pp_inv_def [of lossy s] intro: turn_step)
qed

section \<open>What the invariant gives\<close>

lemma round_bound: "round_ok r \<Longrightarrow> r \<le> 1000001"
  by (auto simp: round_ok_def ping_def PP_LIMIT_def split: if_splits)

lemma round_values:
  assumes "round_ok r"
  shows "ping r \<le> 2000001" and "pong r \<le> 2000002" and "seen r \<le> 2000000"
  using round_bound [OF assms] by (simp_all add: ping_def pong_def seen_def of_nat_diff)

lemma seen_ge: "-1 \<le> seen r"
  by (simp add: seen_def pong_def)

lemma next_round_ok: "ping r < PP_LIMIT \<Longrightarrow> round_ok (Suc r)"
  by (simp add: round_ok_def)

lemma waits_values:
  "round_ok r \<Longrightarrow> server_waits r s \<Longrightarrow> s_rdata s \<in> {-1..2000001}"
  "round_ok r \<Longrightarrow> client_waits r s \<Longrightarrow> c_rdata s \<in> {-1..2000000}"
  using round_values [of r] seen_ge [of r] ping_less [of r] ping_ge [of "r - 1"]
  by (auto simp: server_waits_def client_waits_def split: if_splits simp del: ping_ge)

lemma turn_values:
  "round_ok r \<Longrightarrow> client_turn r s \<Longrightarrow> c_rdata s \<in> {-1..2000000}"
  "round_ok r \<Longrightarrow> server_turn r s \<Longrightarrow> s_rdata s \<in> {-1..2000001}"
  using round_values [of r] seen_ge [of r] ping_ge [of r]
  by (auto simp: client_turn_def server_turn_def simp del: ping_ge)

lemma inv_values:
  assumes "pp_inv lossy s"
  shows "s_rdata s \<in> {-1..2000001}" and "c_rdata s \<in> {-1..2000000}"
    and "length (to_s s) + length (to_c s) \<le> 1"
proof -
  obtain k r where k: "in_turn k r s" and r: "round_ok r" using assms by (auto simp: pp_inv_def)
  show "s_rdata s \<in> {-1..2000001}"
    using k waits_values(1) [of r s] waits_values(1) [of "Suc r" s] turn_values(2) [of r s] r
      next_round_ok [of r]
    by (cases k) (auto simp del: atLeastAtMost_iff)
  show "c_rdata s \<in> {-1..2000000}"
    using k waits_values(2) [OF r] turn_values(1) [OF r] by (cases k) (auto simp del: atLeastAtMost_iff)
  show "length (to_s s) + length (to_c s) \<le> 1" using k by (cases k) auto
qed

lemma inv_done:
  assumes "pp_inv lossy s" and "spc s = S_done"
  shows "s_rdata s = 2000001 \<and> c_rdata s = 2000000 \<and> to_s s = [] \<and> to_c s = [] \<and> client_step s = s"
proof -
  obtain k r where k: "in_turn k r s" and r: "round_ok r" using assms by (auto simp: pp_inv_def)
  from k assms(2) have turn: "client_waits r s" "server_turn r s" "to_s s = []" "to_c s = []"
    by (cases k; auto simp: server_waits_def split: if_splits)+
  with assms(2) have "PP_LIMIT \<le> ping r" by (simp add: server_turn_def)
  with r have "r = 1000001"
    by (auto simp: round_ok_def ping_def PP_LIMIT_def split: if_splits)
  with turn waiting_spins(1) [of r s] show ?thesis
    by (simp add: client_waits_def server_turn_def ping_def seen_def pong_def)
qed

section \<open>Progress\<close>

text \<open>Steps left in the current turn, and stores left to arrive.\<close>

definition server_rank :: "pingpong \<Rightarrow> nat" where
  "server_rank s =
     (case spc s of
        S_wait \<Rightarrow> if s_rdata s < 0 then 0 else 5
      | S_poll \<Rightarrow> if s_rdata s = s_rdata2 s then 0 else 6
      | S_inc \<Rightarrow> 5 | S_while \<Rightarrow> 4 | S_save \<Rightarrow> 3 | S_write \<Rightarrow> 2 | S_done \<Rightarrow> 0)"

definition client_rank :: "pingpong \<Rightarrow> nat" where
  "client_rank s =
     (case cpc s of
        C_poll \<Rightarrow> if c_rdata s = c_rdata2 s then 0 else 6
      | C_inc \<Rightarrow> 5 | C_save \<Rightarrow> 3 | C_write \<Rightarrow> 2)"

definition pp_rank :: "pingpong \<Rightarrow> nat" where
  "pp_rank s = nat (12 * (2000010 - s_rdata s) + 12 * (2000010 - c_rdata s))
     + server_rank s + client_rank s + length (to_s s) + length (to_c s)"

lemma rank_bound: "server_rank s \<le> 6" "client_rank s \<le> 6"
  by (simp_all add: server_rank_def client_rank_def split: server_pc.splits client_pc.splits)

lemma server_step_rank:
  "\<not> (spc s = S_write \<and> s_rdata s \<noteq> s_rdata2 s) \<Longrightarrow> server_step s = s \<or> pp_rank (server_step s) < pp_rank s"
  by (cases "spc s") (auto simp: server_step_def pp_rank_def server_rank_def client_rank_def)

lemma client_step_rank:
  "\<not> (cpc s = C_write \<and> c_rdata s \<noteq> c_rdata2 s) \<Longrightarrow> client_step s = s \<or> pp_rank (client_step s) < pp_rank s"
  by (cases "cpc s") (auto simp: client_step_def pp_rank_def server_rank_def client_rank_def)

lemma arrive_rank:
  assumes "to_s s = v # vs" and "s_rdata s < v" and "v \<le> 2000001" and "c_rdata s \<le> 2000000"
  shows "pp_rank (s\<lparr>to_s := vs, s_rdata := v\<rparr>) < pp_rank s"
proof -
  let ?t = "s\<lparr>to_s := vs, s_rdata := v\<rparr>"
  have "client_rank ?t = client_rank s" by (simp add: client_rank_def)
  then show ?thesis using assms rank_bound(1) [of ?t] by (simp add: pp_rank_def)
qed

lemma arrive_rank_c:
  assumes "to_c s = v # vs" and "c_rdata s < v" and "v \<le> 2000002" and "s_rdata s \<le> 2000001"
  shows "pp_rank (s\<lparr>to_c := vs, c_rdata := v\<rparr>) < pp_rank s"
proof -
  let ?t = "s\<lparr>to_c := vs, c_rdata := v\<rparr>"
  have "server_rank ?t = server_rank s" by (simp add: server_rank_def)
  then show ?thesis using assms rank_bound(2) [of ?t] by (simp add: pp_rank_def)
qed

lemma write_saved:
  "pp_inv lossy s \<Longrightarrow> spc s = S_write \<Longrightarrow> s_rdata s = s_rdata2 s"
  "pp_inv lossy s \<Longrightarrow> cpc s = C_write \<Longrightarrow> c_rdata s = c_rdata2 s"
proof -
  assume inv: "pp_inv lossy s"
  then obtain k r where k: "in_turn k r s" by (auto simp: pp_inv_def)
  show "spc s = S_write \<Longrightarrow> s_rdata s = s_rdata2 s"
    using k by (cases k) (auto simp: server_waits_def server_turn_def split: if_splits)
  show "cpc s = C_write \<Longrightarrow> c_rdata s = c_rdata2 s"
    using k by (cases k) (auto simp: client_waits_def client_turn_def)
qed

lemma arriving:
  assumes "pp_inv lossy s"
  shows "to_s s = v # vs \<Longrightarrow> s_rdata s < v \<and> v \<le> 2000001"
    and "to_c s = v # vs \<Longrightarrow> c_rdata s < v \<and> v \<le> 2000002"
proof -
  obtain k r where k: "in_turn k r s" and r: "round_ok r" using assms by (auto simp: pp_inv_def)
  show "s_rdata s < v \<and> v \<le> 2000001" if "to_s s = v # vs"
    using k that round_values [OF r] ping_less [of r]
    by (cases k) (auto simp: server_waits_def split: if_splits)
  show "c_rdata s < v \<and> v \<le> 2000002" if "to_c s = v # vs"
    using k that round_values [OF r]
    by (cases k) (auto simp: client_waits_def seen_def pong_def)
qed

lemma pp_step_rank:
  assumes "pp_inv False s" and "pp_step False s t"
  shows "t = s \<or> pp_rank t < pp_rank s"
  using assms(2)
proof (cases rule: pp_step.cases)
  case server
  then show ?thesis using server_step_rank [of s] write_saved [OF assms(1)] by auto
next
  case client
  then show ?thesis using client_step_rank [of s] write_saved [OF assms(1)] by auto
next
  case (arrive_s v vs)
  then show ?thesis using arrive_rank [of s v vs] arriving(1) [OF assms(1)] inv_values [OF assms(1)] by auto
next
  case (arrive_c v vs)
  then show ?thesis using arrive_rank_c [of s v vs] arriving(2) [OF assms(1)] inv_values [OF assms(1)] by auto
qed simp_all

lemma client_turn_moves: "client_turn r s \<Longrightarrow> client_step s \<noteq> s"
  using seen_less [of r]
  by (cases "cpc s") (auto simp: client_turn_def client_step_def dest: arg_cong [where f = cpc])

lemma server_turn_moves: "server_turn r s \<Longrightarrow> spc s \<noteq> S_done \<Longrightarrow> server_step s \<noteq> s"
  using ping_less [of r]
  by (cases "spc s") (auto simp: server_turn_def server_step_def dest: arg_cong [where f = spc])

lemma pp_enabled:
  assumes "pp_inv False s" and "spc s \<noteq> S_done"
  shows "\<exists>t. pp_step False s t \<and> t \<noteq> s"
proof -
  obtain k r where k: "in_turn k r s" and "k \<noteq> Lost_ping" "k \<noteq> Lost_pong"
    using assms by (auto simp: pp_inv_def)
  then show ?thesis
  proof (cases k)
    case Client_turn
    with k show ?thesis using client_turn_moves by (auto intro: client)
  next
    case Ping
    with k show ?thesis
      using arriving(1) [OF assms(1)]
      by (auto intro!: exI conjI arrive_s dest: arg_cong [where f = s_rdata])
  next
    case Server_turn
    with k show ?thesis using server_turn_moves assms(2) by (auto intro: server)
  next
    case Pong
    with k show ?thesis
      using arriving(2) [OF assms(1)]
      by (auto intro!: exI conjI arrive_c dest: arg_cong [where f = c_rdata])
  qed simp_all
qed

lemma pp_inv_step: "pp_inv lossy s \<Longrightarrow> pp_step lossy s t \<Longrightarrow> pp_inv lossy t"
  by (auto simp: pp_inv_def [of lossy s] intro: turn_step)

lemma pp_runs_to_done:
  "pp_inv False s \<Longrightarrow> \<exists>t. (pp_step False)\<^sup>*\<^sup>* s t \<and> spc t = S_done"
proof (induction "pp_rank s" arbitrary: s rule: less_induct)
  case less
  show ?case
  proof (cases "spc s = S_done")
    case False
    then obtain u where u: "pp_step False s u" "u \<noteq> s" using pp_enabled less.prems by blast
    then have "pp_rank u < pp_rank s" using pp_step_rank less.prems by blast
    with u less pp_inv_step show ?thesis by (meson converse_rtranclp_into_rtranclp)
  qed blast
qed

lemma pp_reach_trans: "(pp_step lossy)\<^sup>*\<^sup>* s t \<Longrightarrow> pp_reach lossy s \<Longrightarrow> pp_reach lossy t"
  by (induction rule: rtranclp_induct) (auto intro: pp_reach.step)

text \<open>The client's first ping is on its way.\<close>

lemma first_ping:
  "pp_reach lossy ((pp_start j k)\<lparr>c_rdata2 := -1, cpc := C_poll, to_s := [0]\<rparr>)"
proof -
  have "pp_reach lossy (client_step (client_step (pp_start j k)))"
    by (intro pp_reach.step [OF _ client] pp_reach.start)
  then show ?thesis by (simp add: client_step_def pp_start_def)
qed

section \<open>Properties\<close>

text \<open>
  Property C1: whatever the interleaving, and even when the network drops frames, at most one
  remote store is in flight and every value the two programs hold in \<open>rdata\<close> or add one to stays
  within the range of \<open>int\<close>: the server never sees more than 2000001, the client 2000000.
\<close>

theorem pp_safe:
  assumes "pp_reach lossy s"
  shows "length (to_s s) + length (to_c s) \<le> 1 \<and> s_rdata s \<in> {-1..2000001} \<and> c_rdata s \<in> {-1..2000000}"
  using inv_values [OF pp_inv_reach [OF assms]] by blast

theorem pp_safe_witness:
  "length (to_s ((pp_start 5 6)\<lparr>c_rdata2 := -1, cpc := C_poll, to_s := [0]\<rparr>)) \<le> 1
   \<and> s_rdata ((pp_start 5 6)\<lparr>c_rdata2 := -1, cpc := C_poll, to_s := [0]\<rparr>) \<in> {-1..2000001}"
  using pp_safe [OF first_ping [of True 5 6]] by (simp add: pp_start_def)

text \<open>
  Property C2: when the server's loop ends, its \<open>rdata\<close>, which it prints as \<open>loop=\<close>, is 2000001 (not
  2000000: pings after the first are odd), nothing is in flight, and the client, which holds
  2000000, polls without ever leaving its loop.
\<close>

theorem pp_result:
  assumes "pp_reach lossy s" and "spc s = S_done"
  shows "s_rdata s = 2000001 \<and> c_rdata s = 2000000 \<and> (\<forall>t. pp_step lossy s t \<longrightarrow> t = s)"
proof -
  note fin = inv_done [OF pp_inv_reach [OF assms(1)] assms(2)]
  moreover have "server_step s = s" using assms(2) by (simp add: server_step_def)
  ultimately show ?thesis by (auto elim: pp_stepE)
qed

theorem pp_result_witness:
  "\<exists>s. pp_reach False s \<and> spc s = S_done \<and> s_rdata s = 2000001 \<and> c_rdata s = 2000000"
proof -
  obtain s where run: "(pp_step False)\<^sup>*\<^sup>* (pp_start 5 6) s" and fin: "spc s = S_done"
    using pp_runs_to_done [OF pp_inv_reach [OF pp_reach.start [of False 5 6]]] by blast
  have "pp_reach False s" using run pp_reach.start by (rule pp_reach_trans)
  then show ?thesis using pp_result fin by blast
qed

text \<open>
  Property C3: on a network that delivers, the benchmark finishes.  Every step either spins (it
  changes nothing) or brings the end strictly nearer, some step is not a spin until the server is
  done, and from every reachable state the server reaches its end.  The measure starts below 96
  million, which bounds the number of steps that are not spins.
\<close>

theorem pp_finishes:
  assumes "pp_reach False s"
  shows "(\<forall>t. pp_step False s t \<longrightarrow> t = s \<or> pp_rank t < pp_rank s)
    \<and> (spc s \<noteq> S_done \<longrightarrow> (\<exists>t. pp_step False s t \<and> t \<noteq> s))
    \<and> (\<exists>t. (pp_step False)\<^sup>*\<^sup>* s t \<and> spc t = S_done)
    \<and> pp_rank (pp_start j k) < 96000000"
  using pp_step_rank [OF pp_inv_reach [OF assms]] pp_enabled [OF pp_inv_reach [OF assms]]
    pp_runs_to_done [OF pp_inv_reach [OF assms]]
  by (simp add: pp_rank_def pp_start_def server_rank_def client_rank_def)

theorem pp_finishes_witness:
  "\<exists>t. (pp_step False)\<^sup>*\<^sup>* (pp_start 5 6) t \<and> spc t = S_done"
  using pp_finishes [OF pp_reach.start [of False 5 6]] by blast

text \<open>
  Property C4: the protocol has no recovery.  If the network drops the one store that is in flight,
  in either direction, both programs poll for ever: no later step changes the state.
\<close>

theorem pp_loss_is_fatal:
  assumes "pp_reach True s" and "to_s s @ to_c s = v # vs"
    and "pp_step True (s\<lparr>to_s := [], to_c := []\<rparr>) t"
  shows "t = s\<lparr>to_s := [], to_c := []\<rparr>"
proof -
  obtain k r where k: "in_turn k r s"
    using pp_inv_reach [OF assms(1)] by (auto simp: pp_inv_def)
  let ?l = "s\<lparr>to_s := [], to_c := []\<rparr>"
  from k assms(2) have "client_waits r ?l \<and> (server_waits r ?l \<or> server_waits (Suc r) ?l)"
    by (cases k) auto
  then have "client_step ?l = ?l" and "server_step ?l = ?l"
    using waiting_spins by blast+
  with assms(3) show ?thesis by (auto elim!: pp_stepE)
qed

theorem pp_loss_is_fatal_witness:
  "client_step ((pp_start 5 6)\<lparr>c_rdata2 := -1, cpc := C_poll\<rparr>) = (pp_start 5 6)\<lparr>c_rdata2 := -1, cpc := C_poll\<rparr>"
  using pp_loss_is_fatal [OF first_ping [of True 5 6], of 0 "[]"] pp_step.client [of True]
  by (simp add: pp_start_def)

end
