(* ===== verification/Programs.thy ===== *)
theory Programs
  imports Registers
begin

text \<open>
  What the user programs do with the driver and with their own memory: stores to their variables,
  requests that end the program with status 1 when they fail, and the facts that carry the proofs
  about sequences of them: which object a step may change, and what the others keep.
\<close>

section \<open>Stores and requests\<close>

text \<open>A store of the program itself.\<close>

definition set_array :: "u64 \<Rightarrow> byte list \<Rightarrow> 'd kstate \<Rightarrow> kfault + 'd kstate" where
  "set_array p bs s =
     (case store_bytes (mem_of s) p bs of
        None \<Rightarrow> Inl Bad_pointer
      | Some m \<Rightarrow> Inr (s\<lparr>mem_of := m\<rparr>))"

text \<open>
  \<open>if (ioctl(numa_fd, CMD, p) < 0) { ...; return 1; }\<close>: a descriptor that is not open fails, and so
  does a request the driver refuses.
\<close>

definition ioctl_or_1 ::
    "'d host \<Rightarrow> int \<Rightarrow> ipnuma_cmd \<Rightarrow> u64 \<Rightarrow> ('d kstate \<Rightarrow> kfault + (int \<times> 'd kstate))
       \<Rightarrow> 'd kstate \<Rightarrow> kfault + (int \<times> 'd kstate)" where
  "ioctl_or_1 h fd c p k s =
     (if fd < 0 then Inr (1, s)
      else then_do (ipnuma_ioctl h (cmd_code (abi h) c) p s) (\<lambda>r. if fst r < 0 then Inr (1, snd r) else k (snd r)))"

section \<open>Steps that change one object in memory\<close>

definition only_mem :: "u64 \<Rightarrow> nat \<Rightarrow> 'd kstate \<Rightarrow> 'd kstate \<Rightarrow> bool" where
  "only_mem p n s s' \<longleftrightarrow> drv_of s' = drv_of s \<and> dev_of s' = dev_of s
     \<and> dom (mem_of s') = dom (mem_of s) \<and> (\<forall>x. x \<notin> span p n \<longrightarrow> mem_of s' x = mem_of s x)"

lemma only_mem_load:
  "only_mem p n s s' \<Longrightarrow> span q k \<inter> span p n = {} \<Longrightarrow>
     load_bytes (mem_of s') q k = load_bytes (mem_of s) q k"
  unfolding only_mem_def by (intro load_bytes_cong) auto

lemma set_array_run:
  assumes "span p (length bs) \<subseteq> dom (mem_of s)" and "length bs \<le> 8"
  obtains s' where "set_array p bs s = Inr s'" "only_mem p (length bs) s s'"
    "load_bytes (mem_of s') p (length bs) = Some bs"
proof -
  obtain m where m: "store_bytes (mem_of s) p bs = Some m"
    using assms(1) store_bytes_iff [of "mem_of s" p bs] by auto
  show ?thesis
  proof (rule that)
    show "set_array p bs s = Inr (s\<lparr>mem_of := m\<rparr>)" using m by (simp add: set_array_def)
    show "only_mem p (length bs) s (s\<lparr>mem_of := m\<rparr>)"
      using store_bytes_frame [OF m] store_bytes_dom [OF m] by (simp add: only_mem_def)
    show "load_bytes (mem_of (s\<lparr>mem_of := m\<rparr>)) p (length bs) = Some bs"
      using load_after_store [OF m] assms(2) by simp
  qed
qed

lemma store_out_run:
  assumes "span p 8 \<subseteq> dom (mem_of s)"
  obtains s' where "store_out p v s = Inr s'" "only_mem p 8 s s'" "load_u64 (mem_of s') p = Some v"
proof -
  obtain m where m: "store_u64 (mem_of s) p v = Some m"
    using assms store_bytes_iff [of "mem_of s" p "to_le 8 v"] by (auto simp: store_u64_def)
  show ?thesis
  proof (rule that)
    show "store_out p v s = Inr (s\<lparr>mem_of := m\<rparr>)" using m by (simp add: store_out_def)
    show "only_mem p 8 s (s\<lparr>mem_of := m\<rparr>)"
      using store_bytes_frame [of "mem_of s" p "to_le 8 v" m] store_bytes_dom [of "mem_of s" p "to_le 8 v" m] m
      by (simp add: only_mem_def store_u64_def)
    show "load_u64 (mem_of (s\<lparr>mem_of := m\<rparr>)) p = Some v" using load_store_u64 [OF m] by simp
  qed
qed

lemma getpaddr_run:
  assumes "ioc_encoding (abi h)" and "load_u64 (mem_of s) p = Some va"
  obtains s' where "ipnuma_ioctl h (cmd_code (abi h) GETPADDR) p s = Inr (0, s')" "only_mem p 8 s s'"
    "load_u64 (mem_of s') p = Some (snd (any_v2p (page_tables h) (v2p_junk h) va))"
proof -
  have "\<exists>bs. load_bytes (mem_of s) p 8 = Some bs" using assms(2) by (auto simp: load_u64_def)
  then have "span p 8 \<subseteq> dom (mem_of s)" by (simp only: load_bytes_iff)
  then obtain s' where "store_out p (snd (any_v2p (page_tables h) (v2p_junk h) va)) s = Inr s'"
    "only_mem p 8 s s'" "load_u64 (mem_of s') p = Some (snd (any_v2p (page_tables h) (v2p_junk h) va))"
    by (rule store_out_run)
  then show ?thesis
    using that assms(2) by (simp add: ioc_encoding.ioctl_performs [OF assms(1) refl])
qed

lemma getbaraddr_run:
  assumes "ioc_encoding (abi h)" and "span p 8 \<subseteq> dom (mem_of s)"
  obtains s' where "ipnuma_ioctl h (cmd_code (abi h) GETBARADDR) p s = Inr (0, s')" "only_mem p 8 s s'"
    "load_u64 (mem_of s') p = Some (mmio1_start (drv_of s))"
proof -
  obtain s' where "store_out p (mmio1_start (drv_of s)) s = Inr s'" "only_mem p 8 s s'"
    "load_u64 (mem_of s') p = Some (mmio1_start (drv_of s))"
    using assms(2) by (rule store_out_run)
  then show ?thesis
    using that by (simp add: ioc_encoding.ioctl_performs [OF assms(1) refl])
qed

lemma copy_out_only: "copy_out h off p n s = Inr s' \<Longrightarrow> only_mem p n s s'"
  using copy_out_dom [of h off p n s s'] copy_out_effect [of h off p n s s'] by (simp add: only_mem_def)

lemma only_mem_trans: "only_mem p n s s1 \<Longrightarrow> only_mem p n s1 s2 \<Longrightarrow> only_mem p n s s2"
  by (simp add: only_mem_def)

lemma getmem0_run:
  assumes "ioc_encoding (abi h)" and "mmio0_ptr (drv_of s) \<noteq> 0" and "span p 4 \<subseteq> dom (mem_of s)"
  obtains s' where "ipnuma_ioctl h (cmd_code (abi h) GETMEM0PADDR) p s = Inr (0, s')" "only_mem p 4 s s'"
proof -
  obtain s1 where s1: "copy_out h 0x28 p 4 s = Inr s1"
    using copy_out_ok_iff [of h "0x28" p 4 s] assms by blast
  have "mmio0_ptr (drv_of s1) \<noteq> 0" and "span p 4 \<subseteq> dom (mem_of s1)"
    using copy_out_only [OF s1] assms by (simp_all add: only_mem_def)
  then obtain s2 where s2: "copy_out h 0x2c p 4 s1 = Inr s2"
    using copy_out_ok_iff [of h "0x2c" p 4 s1] by blast
  show ?thesis
  proof (rule that)
    show "ipnuma_ioctl h (cmd_code (abi h) GETMEM0PADDR) p s = Inr (0, s2)"
      using s1 s2 by (simp add: ioc_encoding.ioctl_performs [OF assms(1) refl])
    show "only_mem p 4 s s2" using only_mem_trans copy_out_only s1 s2 by blast
  qed
qed

section \<open>Objects apart from each other\<close>

primrec separate :: "(u64 \<times> nat) list \<Rightarrow> bool" where
  "separate [] = True"
| "separate (x # xs) =
     ((\<forall>y \<in> set xs. span (fst x) (snd x) \<inter> span (fst y) (snd y) = {}) \<and> separate xs)"

lemma separate_apart:
  "separate xs \<Longrightarrow> x \<in> set xs \<Longrightarrow> y \<in> set xs \<Longrightarrow> x \<noteq> y \<Longrightarrow>
     span (fst x) (snd x) \<inter> span (fst y) (snd y) = {}"
proof (induction xs)
  case (Cons z zs)
  from Cons.prems consider "x = z" "y \<in> set zs" | "y = z" "x \<in> set zs" | "x \<in> set zs" "y \<in> set zs"
    by auto
  then show ?case using Cons by cases (simp_all add: Int_commute)
qed simp

section \<open>What an object holds\<close>

definition holds :: "u64 \<Rightarrow> byte list \<Rightarrow> 'd kstate \<Rightarrow> bool" where
  "holds p bs s \<longleftrightarrow> load_bytes (mem_of s) p (length bs) = Some bs"

lemma holds_keep:
  "holds q bs s \<Longrightarrow> only_mem p n s s' \<Longrightarrow> span q (length bs) \<inter> span p n = {} \<Longrightarrow> holds q bs s'"
  by (simp add: holds_def only_mem_load)

lemma set_holds:
  assumes "ioc_encoding (abi h)" and "mmio0_ptr (drv_of s) \<noteq> 0" and "set_window c = Some (length bs)"
    and "holds p bs s"
  shows "ipnuma_ioctl h (cmd_code (abi h) c) p s =
    Inr (0, s\<lparr>dev_of := set_effect (wr_mmio h) c bs (dev_of s)\<rparr>)"
  using set_request [OF assms(1-3)] assms(4) by (simp add: holds_def)

lemma only_mem_same: "only_mem p n s s' \<Longrightarrow> drv_of s' = drv_of s \<and> dev_of s' = dev_of s"
  by (simp add: only_mem_def)

lemma u64_keep:
  "only_mem p n s s' \<Longrightarrow> span q 8 \<inter> span p n = {} \<Longrightarrow> load_u64 (mem_of s') q = load_u64 (mem_of s) q"
  by (simp add: load_u64_def only_mem_load)

lemma ioctl_or_1_run:
  "0 \<le> fd \<Longrightarrow> ipnuma_ioctl h (cmd_code (abi h) c) p s = Inr (0, s') \<Longrightarrow> ioctl_or_1 h fd c p k s = k s'"
  by (simp add: ioctl_or_1_def)

end
