(* ===== verification/Pp_Setup.thy ===== *)
theory Pp_Setup
  imports Pingpong Programs
begin

text \<open>
  How the ping-pong benchmark sets up its board before the two loops start: \<open>init_numa\<close> and the
  first part of \<open>main\<close> in \<open>software/pingpong/ipnuma_pingpong.c\<close>, running on the driver of
  \<open>Driver\<close>.  The addresses of the program's variables, the files it opens, what the user
  types and what \<open>mmap\<close> returns are parameters.
\<close>

section \<open>The program's variables\<close>

record pp_vars =
  v_rdata :: u64
  v_pa :: u64
  v_mem0p :: u64
  v_baraddr :: u64
  v_if_ipv4 :: u64
  v_if_mac :: u64
  v_dest_ipv4 :: u64
  v_dest_mac :: u64

definition srv_ipv4 :: "byte list" where
  "srv_ipv4 = [192, 168, 1, 1]"

definition srv_mac :: "byte list" where
  "srv_mac = [0x00, 0x37, 0x76, 0x10, 0x00, 0x01]"

definition cli_ipv4 :: "byte list" where
  "cli_ipv4 = [192, 168, 1, 2]"

definition cli_mac :: "byte list" where
  "cli_mac = [0x00, 0x37, 0x76, 0x10, 0x00, 0x02]"

section \<open>\<open>init_numa\<close>\<close>

text \<open>\<open>numa_fd\<close> is the descriptor already open, or negative; \<open>opened\<close> is what \<open>open\<close> returns.\<close>

definition init_numa ::
    "'d host \<Rightarrow> pp_vars \<Rightarrow> int \<Rightarrow> int \<Rightarrow> bool \<Rightarrow> 'd kstate \<Rightarrow> kfault + (int \<times> 'd kstate)" where
  "init_numa h v numa_fd opened server_flag s =
     (let fd = (if numa_fd < 0 then opened else numa_fd) in
      if fd < 0 then Inr (1, s)
      else
      then_do (set_array (v_if_ipv4 v) (if server_flag then srv_ipv4 else cli_ipv4) s) (\<lambda>s.
      then_do (set_array (v_if_mac v) (if server_flag then srv_mac else cli_mac) s) (\<lambda>s.
      then_do (set_array (v_dest_ipv4 v) (if server_flag then cli_ipv4 else srv_ipv4) s) (\<lambda>s.
      then_do (set_array (v_dest_mac v) (if server_flag then cli_mac else srv_mac) s) (
      ioctl_or_1 h fd GETPADDR (v_pa v) (
      ioctl_or_1 h fd SETIFV4ADDR (v_if_ipv4 v) (
      ioctl_or_1 h fd SETIFMACADDR (v_if_mac v) (
      ioctl_or_1 h fd SETDESTV4ADDR (v_dest_ipv4 v) (
      ioctl_or_1 h fd SETDESTMACADDR (v_dest_mac v) (
      ioctl_or_1 h fd GETMEM0PADDR (v_mem0p v) (
      ioctl_or_1 h fd GETBARADDR (v_baraddr v) (\<lambda>s. Inr (0, s)))))))))))))"

section \<open>\<open>main\<close> up to the loops\<close>

record pp_world =
  w_numa :: int          \<comment> \<open>\<open>open(NUMA_DEVICE)\<close>\<close>
  w_mem :: int           \<comment> \<open>\<open>open(MEM_DEVICE)\<close>\<close>
  w_mapped :: "u64 option" \<comment> \<open>\<open>mmap\<close>; \<open>None\<close> is \<open>MAP_FAILED\<close>\<close>
  w_typed :: "u64 option"  \<comment> \<open>the address \<open>scanf\<close> reads, if the input is a number\<close>

datatype pp_role = Server | Client | No_loop

text \<open>Either the program exits, or it enters its loop storing to the given address.\<close>

datatype pp_outcome = Exited int | Looping pp_role u64

text \<open>\<open>unsigned int st = baraddr, poff = st % 4096, len = 0x40000\<close>: offset and length of the mapping.\<close>

definition map_window :: "u64 \<Rightarrow> u64 \<times> u64" where
  "map_window bar =
     (let st = (ucast bar :: u32); poff = st mod 4096; len = 0x40000 in
      (ucast (st - poff), ucast (len + poff)))"

definition pp_role_of :: "string \<Rightarrow> pp_role" where
  "pp_role_of arg = (if arg = ''s'' then Server else if arg = ''c'' then Client else No_loop)"

definition pp_main ::
    "'d host \<Rightarrow> pp_vars \<Rightarrow> pp_world \<Rightarrow> string list \<Rightarrow> 'd kstate \<Rightarrow> kfault + (pp_outcome \<times> 'd kstate)" where
  "pp_main h v w argv s =
     (if length argv \<noteq> 2 then Inr (Exited 1, s)
      else
      then_do (set_array (v_pa v) (to_le 8 (v_rdata v)) s) (\<lambda>s.
      then_do (init_numa h v (-1) (w_numa w) (argv ! 1 = ''s'') s) (\<lambda>r.
      then_do (set_array (v_rdata v) (to_le 4 (-1 :: u32)) (snd r)) (\<lambda>s.
      case load_u64 (mem_of s) (v_baraddr v) of None \<Rightarrow> Inl Bad_pointer | Some bar \<Rightarrow>
      if w_mem w < 0 then Inr (Exited 1, s)
      else case w_mapped w of None \<Rightarrow> Inr (Exited 1, s) | Some mmapped \<Rightarrow>
      then_do (case w_typed w of None \<Rightarrow> Inr s | Some a \<Rightarrow> set_array (v_mem0p v) (to_le 8 a) s) (\<lambda>s.
      then_do (ioctl_or_1 h (w_numa w) SETMEM0PADDR (v_mem0p v) (\<lambda>s. Inr (0, s)) s) (\<lambda>r.
      if fst r \<noteq> 0 then Inr (Exited 1, snd r)
      else case load_u64 (mem_of (snd r)) (v_mem0p v) of None \<Rightarrow> Inl Bad_pointer | Some mem0p \<Rightarrow>
        Inr (Looping (pp_role_of (argv ! 1)) (mmapped + (mem0p AND 0xfff)), snd r)))))))"

section \<open>What \<open>init_numa\<close> leaves\<close>

text \<open>The program's variables are apart from each other and mapped.\<close>

definition pp_objects :: "pp_vars \<Rightarrow> (u64 \<times> nat) list" where
  "pp_objects v = [(v_rdata v, 4), (v_pa v, 8), (v_mem0p v, 8), (v_baraddr v, 8),
     (v_if_ipv4 v, 4), (v_if_mac v, 6), (v_dest_ipv4 v, 4), (v_dest_mac v, 6)]"

definition pp_loaded :: "pp_vars \<Rightarrow> 'd kstate \<Rightarrow> bool" where
  "pp_loaded v s \<longleftrightarrow> separate (pp_objects v)
     \<and> (\<forall>x \<in> set (pp_objects v). span (fst x) (snd x) \<subseteq> dom (mem_of s))"

lemma pp_loaded_keep: "only_mem p n s s' \<Longrightarrow> pp_loaded v s' = pp_loaded v s"
  by (simp add: only_mem_def pp_loaded_def)

lemma pp_loaded_dev [simp]: "pp_loaded v (s\<lparr>dev_of := d\<rparr>) = pp_loaded v s"
  by (simp add: pp_loaded_def)

lemma pp_loaded_mapped:
  "pp_loaded v s \<Longrightarrow> (p, n) \<in> set (pp_objects v) \<Longrightarrow> span p n \<subseteq> dom (mem_of s)"
  by (fastforce simp: pp_loaded_def)

definition configured :: "('d \<Rightarrow> nat \<Rightarrow> byte \<Rightarrow> 'd) \<Rightarrow> bool \<Rightarrow> 'd \<Rightarrow> 'd" where
  "configured wr server d =
     set_effect wr SETDESTMACADDR (if server then cli_mac else srv_mac)
      (set_effect wr SETDESTV4ADDR (if server then cli_ipv4 else srv_ipv4)
       (set_effect wr SETIFMACADDR (if server then srv_mac else cli_mac)
        (set_effect wr SETIFV4ADDR (if server then srv_ipv4 else cli_ipv4) d)))"

lemma length_arrays [simp]:
  "length srv_ipv4 = 4" "length cli_ipv4 = 4" "length srv_mac = 6" "length cli_mac = 6"
  by (simp_all add: srv_ipv4_def cli_ipv4_def srv_mac_def cli_mac_def)

lemma apart_objects:
  assumes "pp_loaded v s"
  shows "span (v_if_ipv4 v) 4 \<inter> span (v_if_mac v) 6 = {}" "span (v_if_ipv4 v) 4 \<inter> span (v_dest_ipv4 v) 4 = {}"
    "span (v_if_ipv4 v) 4 \<inter> span (v_dest_mac v) 6 = {}" "span (v_if_mac v) 6 \<inter> span (v_dest_ipv4 v) 4 = {}"
    "span (v_if_mac v) 6 \<inter> span (v_dest_mac v) 6 = {}" "span (v_dest_ipv4 v) 4 \<inter> span (v_dest_mac v) 6 = {}"
    "span (v_if_ipv4 v) 4 \<inter> span (v_pa v) 8 = {}" "span (v_if_mac v) 6 \<inter> span (v_pa v) 8 = {}"
    "span (v_dest_ipv4 v) 4 \<inter> span (v_pa v) 8 = {}" "span (v_dest_mac v) 6 \<inter> span (v_pa v) 8 = {}"
    "span (v_pa v) 8 \<inter> span (v_if_ipv4 v) 4 = {}" "span (v_pa v) 8 \<inter> span (v_if_mac v) 6 = {}"
    "span (v_pa v) 8 \<inter> span (v_dest_ipv4 v) 4 = {}" "span (v_pa v) 8 \<inter> span (v_dest_mac v) 6 = {}"
    "span (v_pa v) 8 \<inter> span (v_mem0p v) 8 = {}" "span (v_pa v) 8 \<inter> span (v_baraddr v) 8 = {}"
    "span (v_pa v) 8 \<inter> span (v_rdata v) 4 = {}" "span (v_baraddr v) 8 \<inter> span (v_rdata v) 4 = {}"
    "span (v_baraddr v) 8 \<inter> span (v_mem0p v) 8 = {}"
  using assms by (simp_all add: pp_loaded_def pp_objects_def Int_commute)

text \<open>The addresses and MACs are copied, and nothing the driver is told about is disturbed.\<close>

lemma arrays_run:
  assumes L: "pp_loaded v s" and "length ip = 4" "length mac = 6" "length ip' = 4" "length mac' = 6"
  obtains s' where
    "\<And>k. then_do (set_array (v_if_ipv4 v) ip s) (\<lambda>s. then_do (set_array (v_if_mac v) mac s) (\<lambda>s.
       then_do (set_array (v_dest_ipv4 v) ip' s) (\<lambda>s. then_do (set_array (v_dest_mac v) mac' s) k))) = k s'"
    "drv_of s' = drv_of s" "dev_of s' = dev_of s" "pp_loaded v s'"
    "load_u64 (mem_of s') (v_pa v) = load_u64 (mem_of s) (v_pa v)"
    "holds (v_if_ipv4 v) ip s'" "holds (v_if_mac v) mac s'" "holds (v_dest_ipv4 v) ip' s'"
    "holds (v_dest_mac v) mac' s'"
proof -
  note ap = apart_objects [OF L]
  have obj: "(v_if_ipv4 v, 4) \<in> set (pp_objects v)" "(v_if_mac v, 6) \<in> set (pp_objects v)"
    "(v_dest_ipv4 v, 4) \<in> set (pp_objects v)" "(v_dest_mac v, 6) \<in> set (pp_objects v)"
    by (simp_all add: pp_objects_def)
  obtain s1 where s1: "set_array (v_if_ipv4 v) ip s = Inr s1" "only_mem (v_if_ipv4 v) 4 s s1"
    "holds (v_if_ipv4 v) ip s1"
    using set_array_run [of "v_if_ipv4 v" ip s] pp_loaded_mapped [OF L obj(1)] assms(2)
    by (auto simp: holds_def)
  then have L1: "pp_loaded v s1" using L pp_loaded_keep by blast
  obtain s2 where s2: "set_array (v_if_mac v) mac s1 = Inr s2" "only_mem (v_if_mac v) 6 s1 s2"
    "holds (v_if_mac v) mac s2"
    using set_array_run [of "v_if_mac v" mac s1] pp_loaded_mapped [OF L1 obj(2)] assms(3)
    by (auto simp: holds_def)
  then have L2: "pp_loaded v s2" using L1 pp_loaded_keep by blast
  obtain s3 where s3: "set_array (v_dest_ipv4 v) ip' s2 = Inr s3" "only_mem (v_dest_ipv4 v) 4 s2 s3"
    "holds (v_dest_ipv4 v) ip' s3"
    using set_array_run [of "v_dest_ipv4 v" ip' s2] pp_loaded_mapped [OF L2 obj(3)] assms(4)
    by (auto simp: holds_def)
  then have L3: "pp_loaded v s3" using L2 pp_loaded_keep by blast
  obtain s4 where s4: "set_array (v_dest_mac v) mac' s3 = Inr s4" "only_mem (v_dest_mac v) 6 s3 s4"
    "holds (v_dest_mac v) mac' s4"
    using set_array_run [of "v_dest_mac v" mac' s3] pp_loaded_mapped [OF L3 obj(4)] assms(5)
    by (auto simp: holds_def)
  note keep = holds_keep [OF _ s2(2)] holds_keep [OF _ s3(2)] holds_keep [OF _ s4(2)]
  show ?thesis
  proof (rule that [of s4])
    show "pp_loaded v s4" using s4(2) L3 pp_loaded_keep by blast
    show "drv_of s4 = drv_of s" "dev_of s4 = dev_of s"
      using only_mem_same s1(2) s2(2) s3(2) s4(2) by metis+
    show "load_u64 (mem_of s4) (v_pa v) = load_u64 (mem_of s) (v_pa v)"
      using u64_keep [OF s1(2)] u64_keep [OF s2(2)] u64_keep [OF s3(2)] u64_keep [OF s4(2)] ap by simp
    show "holds (v_if_ipv4 v) ip s4" "holds (v_if_mac v) mac s4" "holds (v_dest_ipv4 v) ip' s4"
      using s1(3) s2(3) s3(3) by (simp_all add: keep ap assms(2-5))
  qed (use s1 s2 s3 s4 in simp_all)
qed

text \<open>The four SET requests in a row.\<close>

lemma sets_run:
  assumes "ioc_encoding (abi h)" and "mmio0_ptr (drv_of s) \<noteq> 0" and "0 \<le> fd"
    and "holds p1 ip s" "holds p2 mac s" "holds p3 ip' s" "holds p4 mac' s"
    and "length ip = 4" "length mac = 6" "length ip' = 4" "length mac' = 6"
  shows "ioctl_or_1 h fd SETIFV4ADDR p1 (ioctl_or_1 h fd SETIFMACADDR p2
      (ioctl_or_1 h fd SETDESTV4ADDR p3 (ioctl_or_1 h fd SETDESTMACADDR p4 k))) s =
    k (s\<lparr>dev_of := set_effect (wr_mmio h) SETDESTMACADDR mac' (set_effect (wr_mmio h) SETDESTV4ADDR ip'
         (set_effect (wr_mmio h) SETIFMACADDR mac (set_effect (wr_mmio h) SETIFV4ADDR ip (dev_of s))))\<rparr>)"
proof -
  have dev: "holds q bs (s\<lparr>dev_of := d\<rparr>) = holds q bs s" for q bs d by (simp add: holds_def)
  note run = ioctl_or_1_run [OF assms(3) set_holds [OF assms(1)]]
  show ?thesis using assms(2,4-) by (simp add: run dev)
qed

lemma init_numa_run:
  assumes enc: "ioc_encoding (abi h)" and mm: "mmio0_ptr (drv_of (s :: 'a kstate)) \<noteq> 0" and L: "pp_loaded v s"
    and fd: "0 \<le> opened" and va: "load_u64 (mem_of s) (v_pa v) = Some va"
  obtains s' where "init_numa h v (-1) opened server s = Inr (0, s')" "drv_of s' = drv_of s"
    "pp_loaded v s'" "dev_of s' = configured (wr_mmio h) server (dev_of s)"
    "load_u64 (mem_of s') (v_pa v) = Some (snd (any_v2p (page_tables h) (v2p_junk h) va))"
    "load_u64 (mem_of s') (v_baraddr v) = Some (mmio1_start (drv_of s))"
proof -
  define ip where "ip = (if server then srv_ipv4 else cli_ipv4)"
  define mac where "mac = (if server then srv_mac else cli_mac)"
  define ip' where "ip' = (if server then cli_ipv4 else srv_ipv4)"
  define mac' where "mac' = (if server then cli_mac else srv_mac)"
  have len: "length ip = 4" "length mac = 6" "length ip' = 4" "length mac' = 6"
    by (simp_all add: ip_def mac_def ip'_def mac'_def)
  note ap = apart_objects [OF L]
  obtain s4 where
    run4: "\<And>k :: 'a kstate \<Rightarrow> kfault + int \<times> 'a kstate. then_do (set_array (v_if_ipv4 v) ip s) (\<lambda>s. then_do (set_array (v_if_mac v) mac s) (\<lambda>s.
       then_do (set_array (v_dest_ipv4 v) ip' s) (\<lambda>s. then_do (set_array (v_dest_mac v) mac' s) k))) = k s4"
    and s4: "drv_of s4 = drv_of s" "dev_of s4 = dev_of s" "pp_loaded v s4"
      "load_u64 (mem_of s4) (v_pa v) = load_u64 (mem_of s) (v_pa v)"
    and hold4: "holds (v_if_ipv4 v) ip s4" "holds (v_if_mac v) mac s4" "holds (v_dest_ipv4 v) ip' s4"
      "holds (v_dest_mac v) mac' s4"
    using arrays_run [OF L len] by metis
  obtain s5 where s5: "ipnuma_ioctl h (cmd_code (abi h) GETPADDR) (v_pa v) s4 = Inr (0, s5)"
      "only_mem (v_pa v) 8 s4 s5"
      "load_u64 (mem_of s5) (v_pa v) = Some (snd (any_v2p (page_tables h) (v2p_junk h) va))"
    using getpaddr_run [OF enc] s4(4) va by metis
  have hold5: "holds (v_if_ipv4 v) ip s5" "holds (v_if_mac v) mac s5" "holds (v_dest_ipv4 v) ip' s5"
      "holds (v_dest_mac v) mac' s5"
    using holds_keep [OF _ s5(2)] hold4 len ap by simp_all
  have mm5: "mmio0_ptr (drv_of s5) \<noteq> 0" and L5: "pp_loaded v s5"
    using mm s4(1,3) only_mem_same [OF s5(2)] pp_loaded_keep [OF s5(2)] by simp_all
  define s6 where "s6 = s5\<lparr>dev_of := configured (wr_mmio h) server (dev_of s5)\<rparr>"
  have L6: "pp_loaded v s6" and mm6: "mmio0_ptr (drv_of s6) \<noteq> 0" using L5 mm5 by (simp_all add: s6_def)
  have "span (v_mem0p v) 8 \<subseteq> dom (mem_of s6)"
    using L6 by (rule pp_loaded_mapped) (simp add: pp_objects_def)
  then have "span (v_mem0p v) 4 \<subseteq> dom (mem_of s6)" using span_mono [of 4 8 "v_mem0p v"] by simp
  from getmem0_run [OF enc mm6 this] obtain s7 where
    s7: "ipnuma_ioctl h (cmd_code (abi h) GETMEM0PADDR) (v_mem0p v) s6 = Inr (0, s7)"
      "only_mem (v_mem0p v) 4 s6 s7" by blast
  have L7: "pp_loaded v s7" using L6 s7(2) pp_loaded_keep by blast
  have "span (v_baraddr v) 8 \<subseteq> dom (mem_of s7)"
    using L7 by (rule pp_loaded_mapped) (simp add: pp_objects_def)
  from getbaraddr_run [OF enc this] obtain s8 where
    s8: "ipnuma_ioctl h (cmd_code (abi h) GETBARADDR) (v_baraddr v) s7 = Inr (0, s8)"
      "only_mem (v_baraddr v) 8 s7 s8" "load_u64 (mem_of s8) (v_baraddr v) = Some (mmio1_start (drv_of s7))"
    by blast
  have drv: "drv_of s7 = drv_of s" and dev: "dev_of s7 = configured (wr_mmio h) server (dev_of s)"
    using only_mem_same [OF s5(2)] only_mem_same [OF s7(2)] s4(1,2) by (simp_all add: s6_def)
  have mem6: "mem_of s6 = mem_of s5" by (simp add: s6_def)
  have "span (v_pa v) 8 \<inter> span (v_mem0p v) 4 = {}" using ap(15) span_mono [of 4 8 "v_mem0p v"] by auto
  then have pa8: "load_u64 (mem_of s8) (v_pa v) = load_u64 (mem_of s5) (v_pa v)"
    using u64_keep [OF s7(2)] u64_keep [OF s8(2)] ap mem6 by simp
  show ?thesis
  proof (rule that [of s8])
    have sets: "ioctl_or_1 h opened SETIFV4ADDR (v_if_ipv4 v) (ioctl_or_1 h opened SETIFMACADDR (v_if_mac v)
        (ioctl_or_1 h opened SETDESTV4ADDR (v_dest_ipv4 v)
          (ioctl_or_1 h opened SETDESTMACADDR (v_dest_mac v) k))) s5 = k s6" for k
      using sets_run [OF enc mm5 fd hold5 len]
      unfolding s6_def configured_def ip_def mac_def ip'_def mac'_def .
    have "\<not> opened < 0" using fd by simp
    then show "init_numa h v (-1) opened server s = Inr (0, s8)"
      unfolding init_numa_def Let_def ip_def [symmetric] mac_def [symmetric] ip'_def [symmetric] mac'_def [symmetric]
      by (simp add: run4 ioctl_or_1_run [OF fd s5(1)] sets ioctl_or_1_run [OF fd s7(1)]
          ioctl_or_1_run [OF fd s8(1)])
    show "drv_of s8 = drv_of s" "dev_of s8 = configured (wr_mmio h) server (dev_of s)"
      using only_mem_same [OF s8(2)] drv dev by simp_all
    show "pp_loaded v s8" using L7 s8(2) pp_loaded_keep by blast
  qed (use pa8 s5(3) s8(3) drv in simp_all)
qed

section \<open>What \<open>main\<close> leaves before the loops\<close>

lemma set_u64_run:
  assumes "span p 8 \<subseteq> dom (mem_of s)"
  obtains s' where "set_array p (to_le 8 (x :: u64)) s = Inr s'" "only_mem p 8 s s'"
    "load_u64 (mem_of s') p = Some x" "load_bytes (mem_of s') p 8 = Some (to_le 8 x)"
proof -
  have "span p (length (to_le 8 x)) \<subseteq> dom (mem_of s)" using assms by simp
  then obtain s' where s': "set_array p (to_le 8 x) s = Inr s'" "only_mem p 8 s s'"
    "load_bytes (mem_of s') p 8 = Some (to_le 8 x)"
    by (rule set_array_run [of p "to_le 8 x" s]) simp_all
  then show ?thesis using that by (simp add: load_u64_def of_le_to_le)
qed

lemma pp_main_run:
  assumes enc: "ioc_encoding (abi h)" and mm: "mmio0_ptr (drv_of s) \<noteq> 0" and L: "pp_loaded v s"
    and w: "0 \<le> w_numa w" "0 \<le> w_mem w" "w_mapped w = Some base" "w_typed w = Some a"
    and argv: "length argv = 2"
  obtains s' where
    "pp_main h v w argv s = Inr (Looping (pp_role_of (argv ! 1)) (base + (a AND 0xfff)), s')"
    "dev_of s' = set_effect (wr_mmio h) SETMEM0PADDR (to_le 4 a)
       (configured (wr_mmio h) (argv ! 1 = ''s'') (dev_of s))"
    "load_u64 (mem_of s') (v_pa v) = Some (snd (any_v2p (page_tables h) (v2p_junk h) (v_rdata v)))"
    "load_bytes (mem_of s') (v_rdata v) 4 = Some (to_le 4 (-1 :: u32))"
    "load_u64 (mem_of s') (v_baraddr v) = Some (mmio1_start (drv_of s))"
proof -
  have obj: "(v_rdata v, 4) \<in> set (pp_objects v)" "(v_pa v, 8) \<in> set (pp_objects v)"
    "(v_mem0p v, 8) \<in> set (pp_objects v)"
    by (simp_all add: pp_objects_def)
  note ap = apart_objects [OF L]
  have ap': "span (v_rdata v) 4 \<inter> span (v_mem0p v) 8 = {}"
    using L by (simp add: pp_loaded_def pp_objects_def)
  obtain s1 where s1: "set_array (v_pa v) (to_le 8 (v_rdata v)) s = Inr s1" "only_mem (v_pa v) 8 s s1"
    "load_u64 (mem_of s1) (v_pa v) = Some (v_rdata v)"
    using set_u64_run pp_loaded_mapped [OF L obj(2)] by metis
  have L1: "pp_loaded v s1" and mm1: "mmio0_ptr (drv_of s1) \<noteq> 0"
    using L mm pp_loaded_keep [OF s1(2)] only_mem_same [OF s1(2)] by simp_all
  obtain s2 where s2: "init_numa h v (-1) (w_numa w) (argv ! 1 = ''s'') s1 = Inr (0, s2)"
    "drv_of s2 = drv_of s1" "pp_loaded v s2"
    "dev_of s2 = configured (wr_mmio h) (argv ! 1 = ''s'') (dev_of s1)"
    "load_u64 (mem_of s2) (v_pa v) = Some (snd (any_v2p (page_tables h) (v2p_junk h) (v_rdata v)))"
    "load_u64 (mem_of s2) (v_baraddr v) = Some (mmio1_start (drv_of s1))"
    using init_numa_run [OF enc mm1 L1 w(1) s1(3)] by metis
  have "span (v_rdata v) (length (to_le 4 (-1 :: u32))) \<subseteq> dom (mem_of s2)"
    using pp_loaded_mapped [OF s2(3) obj(1)] by simp
  then obtain s3 where s3: "set_array (v_rdata v) (to_le 4 (-1 :: u32)) s2 = Inr s3"
    "only_mem (v_rdata v) 4 s2 s3" "load_bytes (mem_of s3) (v_rdata v) 4 = Some (to_le 4 (-1 :: u32))"
    by (rule set_array_run) simp_all
  have L3: "pp_loaded v s3" using s2(3) pp_loaded_keep [OF s3(2)] by simp
  obtain s4 where s4: "set_array (v_mem0p v) (to_le 8 a) s3 = Inr s4" "only_mem (v_mem0p v) 8 s3 s4"
    "load_u64 (mem_of s4) (v_mem0p v) = Some a" "load_bytes (mem_of s4) (v_mem0p v) 8 = Some (to_le 8 a)"
    using set_u64_run pp_loaded_mapped [OF L3 obj(3)] by metis
  have same: "drv_of s4 = drv_of s" "dev_of s4 = configured (wr_mmio h) (argv ! 1 = ''s'') (dev_of s)"
    using only_mem_same [OF s1(2)] only_mem_same [OF s3(2)] only_mem_same [OF s4(2)] s2(2,4) by simp_all
  have "load_bytes (mem_of s4) (v_mem0p v) 4 = Some (to_le 4 a)"
    using load_bytes_take [OF s4(4), of 4] by simp
  then have "holds (v_mem0p v) (to_le 4 a) s4" by (simp add: holds_def)
  then have set: "ipnuma_ioctl h (cmd_code (abi h) SETMEM0PADDR) (v_mem0p v) s4 =
      Inr (0, s4\<lparr>dev_of := set_effect (wr_mmio h) SETMEM0PADDR (to_le 4 a) (dev_of s4)\<rparr>)"
    using same mm by (intro set_holds [OF enc]) simp_all
  let ?s5 = "s4\<lparr>dev_of := set_effect (wr_mmio h) SETMEM0PADDR (to_le 4 a) (dev_of s4)\<rparr>"
  have bar3: "load_u64 (mem_of s3) (v_baraddr v) = Some (mmio1_start (drv_of s))"
    using u64_keep [OF s3(2)] ap s2(6) only_mem_same [OF s1(2)] by simp
  show ?thesis
  proof (rule that [of ?s5])
    show "pp_main h v w argv s = Inr (Looping (pp_role_of (argv ! 1)) (base + (a AND 0xfff)), ?s5)"
      using argv w bar3 s4(3)
      by (simp add: pp_main_def s1(1) s2(1) s3(1) s4(1) ioctl_or_1_run [OF w(1) set]
          del: One_nat_def set_effect.simps)
    show "load_bytes (mem_of ?s5) (v_rdata v) 4 = Some (to_le 4 (-1 :: u32))"
      using only_mem_load [OF s4(2) ap'] s3(3) by simp
    show "load_u64 (mem_of ?s5) (v_pa v) = Some (snd (any_v2p (page_tables h) (v2p_junk h) (v_rdata v)))"
      using u64_keep [OF s3(2)] u64_keep [OF s4(2)] ap s2(5) by simp
    show "load_u64 (mem_of ?s5) (v_baraddr v) = Some (mmio1_start (drv_of s))"
      using u64_keep [OF s4(2)] ap bar3 by simp
  qed (simp add: same)
qed

section \<open>The two boards after the setup\<close>

lemma ecp3_configured:
  "configured ecp3_wr server r = r\<lparr>
     if_v4addr := (if server then 0xC0A80101 else 0xC0A80102),
     if_macaddr := (if server then 0x003776100001 else 0x003776100002),
     dest_v4addr := (if server then 0xC0A80102 else 0xC0A80101),
     dest_macaddr := (if server then 0x003776100002 else 0x003776100001)\<rparr>"
  by (simp add: configured_def ecp3_set_effect del: set_effect.simps)
    (simp add: srv_ipv4_def cli_ipv4_def srv_mac_def cli_mac_def of_be_def)

lemma kc705_configured:
  "configured kc705_wr server r = r\<lparr>
     if_v4addr := (if server then 0xC0A80101 else 0xC0A80102),
     if_macaddr := put_bits 39 32 (if server then 1 else 2 :: byte) (put_bits 47 40 (0 :: byte) (if_macaddr r)),
     dest_v4addr := (if server then 0xC0A80102 else 0xC0A80101),
     dest_macaddr := put_bits 39 32 (if server then 2 else 1 :: byte) (put_bits 47 40 (0 :: byte) (dest_macaddr r))\<rparr>"
  by (simp add: configured_def kc705_set_effect del: set_effect.simps)
    (simp add: srv_ipv4_def cli_ipv4_def srv_mac_def cli_mac_def of_be_def)

section \<open>Where a remote store goes\<close>

text \<open>
  The address of a memory write that \<open>PIO_RX_SNOOP.v\<close> forwards, for a header with a 32-bit
  address: \<open>{mem0_paddr[31:12], m_axis_rx_tdata[11:0]}\<close>.
\<close>

definition snoop_addr32 :: "regs \<Rightarrow> u32 \<Rightarrow> u32" where
  "snoop_addr32 r addr = put_bits 31 12 (get_bits 31 12 (mem0_paddr r) :: u32) addr"

lemma kc705_mem0_page:
  "get_bits 31 12 (mem0_paddr (kc705_set SETMEM0PADDR (to_le 4 a) r)) = (get_bits 31 12 a :: u32)"
  by (rule bit_eqI) (auto simp: bit_put bit_get bytes_simps)

lemma page_offset:
  assumes "take_bit 12 (off :: u64) = 0"
  shows "bit (off + (a AND 0xfff)) n \<longleftrightarrow> (if n < 12 then bit a n else bit off n)"
proof -
  have low: "bit off n = False" if "n < 12" for n
    using assms that by (metis bit_0_eq bit_take_bit_iff bot_apply bot_bool_def)
  have mask: "(0xfff :: u64) = mask 12" by (simp add: mask_eq_exp_minus_1)
  have "off AND (a AND 0xfff) = 0"
    by (rule bit_eqI) (auto simp: mask bit_simps low)
  then have "off + (a AND 0xfff) = off OR (a AND 0xfff)"
    by (simp add: disjunctive_add_eq_or)
  then show ?thesis by (auto simp: mask bit_simps low)
qed

lemma map_window_aligned: "take_bit 12 (fst (map_window bar)) = 0"
proof -
  have "take_bit 12 (st - st mod 4096 :: u32) = 0" for st
  proof -
    have "st mod 4096 = take_bit 12 st" by (simp add: take_bit_eq_mod)
    then have "st - st mod 4096 = push_bit 12 (drop_bit 12 st)"
      by (metis add_diff_cancel_right' bits_ident)
    then show ?thesis by (simp add: take_bit_push_bit)
  qed
  then show ?thesis
    by (simp add: map_window_def Let_def flip: unsigned_take_bit_eq)
qed

lemma map_window_offset:
  "unat (fst (map_window bar)) = unat (ucast bar :: u32) - unat (ucast bar :: u32) mod 4096"
  "unat (snd (map_window bar)) = 0x40000 + unat (ucast bar :: u32) mod 4096"
proof -
  let ?st = "ucast bar :: u32"
  have up: "unat (ucast x :: u64) = unat x" for x :: u32
    using unsigned_less [of x, where ?'a = nat]
    by (simp add: unsigned_ucast_eq take_bit_nat_eq_self)
  have m: "unat (?st mod 4096) = unat ?st mod 4096" by (simp add: unat_mod_distrib)
  then have le: "?st mod 4096 \<le> ?st" by (simp add: word_le_nat_alt)
  show "unat (fst (map_window bar)) = unat ?st - unat ?st mod 4096"
    by (simp add: map_window_def Let_def up unat_sub [OF le] m)
  have "unat (0x40000 + ?st mod 4096) = 0x40000 + unat ?st mod 4096"
    using m by (simp add: unat_word_ariths)
  then show "unat (snd (map_window bar)) = 0x40000 + unat ?st mod 4096"
    by (simp add: map_window_def Let_def up)
qed

section \<open>A concrete program\<close>

definition example_vars :: pp_vars where
  "example_vars = \<lparr>v_rdata = 0x1000, v_pa = 0x1010, v_mem0p = 0x1020, v_baraddr = 0x1030,
     v_if_ipv4 = 0x1040, v_if_mac = 0x1050, v_dest_ipv4 = 0x1060, v_dest_mac = 0x1070\<rparr>"

definition example_world :: pp_world where
  "example_world = \<lparr>w_numa = 3, w_mem = 4, w_mapped = Some 0x7f0000000000, w_typed = Some 0x49B79100\<rparr>"

lemma example_loaded: "pp_loaded example_vars example_state"
  by (simp add: pp_loaded_def pp_objects_def example_vars_def span_disjoint)

section \<open>Properties\<close>

text \<open>
  Property C13: on the ECP3 board, when the files open and the kernel maps the registers, the setup
  runs to the loop of the role the argument names, the board then holds the address and MAC of
  that role and of its partner, \<open>pa\<close> is the translation of the address of \<open>rdata\<close> and \<open>rdata\<close> is
  -1.
\<close>

theorem ecp3_pp_setup:
  assumes "ioc_encoding (abi h)" and "wr_mmio h = ecp3_wr" and "mmio0_ptr (drv_of s) \<noteq> 0"
    and "pp_loaded v s" and "0 \<le> w_numa w" and "0 \<le> w_mem w" and "w_mapped w = Some base"
    and "w_typed w = Some a" and "length argv = 2"
  shows "\<exists>s'. pp_main h v w argv s = Inr (Looping (pp_role_of (argv ! 1)) (base + (a AND 0xfff)), s')
    \<and> (let server = (argv ! 1 = ''s'') in dev_of s' = (dev_of s)\<lparr>
        if_v4addr := (if server then 0xC0A80101 else 0xC0A80102),
        if_macaddr := (if server then 0x003776100001 else 0x003776100002),
        dest_v4addr := (if server then 0xC0A80102 else 0xC0A80101),
        dest_macaddr := (if server then 0x003776100002 else 0x003776100001),
        mem0_paddr := of_le (to_le 4 a @ to_le 2 a)\<rparr>)
    \<and> load_u64 (mem_of s') (v_pa v) = Some (snd (any_v2p (page_tables h) (v2p_junk h) (v_rdata v)))
    \<and> load_bytes (mem_of s') (v_rdata v) 4 = Some (to_le 4 (-1 :: u32))"
  by (rule pp_main_run [OF assms(1,3-9)])
    (auto simp: assms(2) ecp3_configured ecp3_set_effect Let_def simp del: set_effect.simps)

theorem ecp3_pp_setup_witness:
  "\<exists>s'. pp_main (example_host ecp3_rd ecp3_wr) example_vars example_world [''ipnuma_pingpong'', ''s''] example_state
        = Inr (Looping Server 0x7f0000000100, s')
      \<and> if_v4addr (dev_of s') = 0xC0A80101 \<and> if_macaddr (dev_of s') = 0x003776100001"
  using ecp3_pp_setup [of "example_host ecp3_rd ecp3_wr" example_state example_vars example_world
      "0x7f0000000000" "0x49B79100" "[''ipnuma_pingpong'', ''s'']"] example_loaded
  by (auto simp: example_world_def pp_role_of_def Let_def)

text \<open>
  Property C14: on the KC705 board the same setup sets both IP addresses, but of each MAC register
  only its first two bytes change, to 0 and the last byte of the address meant for it (1 for the
  server's, 2 for the client's, in the own and the partner's register as the role has it): the board
  keeps sending from and to the other MAC bytes it had.
\<close>

theorem kc705_pp_setup:
  assumes "ioc_encoding (abi h)" and "wr_mmio h = kc705_wr" and "mmio0_ptr (drv_of s) \<noteq> 0"
    and "pp_loaded v s" and "0 \<le> w_numa w" and "0 \<le> w_mem w" and "w_mapped w = Some base"
    and "w_typed w = Some a" and "length argv = 2"
  shows "\<exists>s'. pp_main h v w argv s = Inr (Looping (pp_role_of (argv ! 1)) (base + (a AND 0xfff)), s')
    \<and> if_v4addr (dev_of s') = (if argv ! 1 = ''s'' then 0xC0A80101 else 0xC0A80102)
    \<and> dest_v4addr (dev_of s') = (if argv ! 1 = ''s'' then 0xC0A80102 else 0xC0A80101)
    \<and> (get_bits 31 0 (if_macaddr (dev_of s')) :: u32) = get_bits 31 0 (if_macaddr (dev_of s))
    \<and> (get_bits 31 0 (dest_macaddr (dev_of s')) :: u32) = get_bits 31 0 (dest_macaddr (dev_of s))
    \<and> (get_bits 47 32 (if_macaddr (dev_of s')) :: u16) = (if argv ! 1 = ''s'' then 1 else 2)
    \<and> (get_bits 47 32 (dest_macaddr (dev_of s')) :: u16) = (if argv ! 1 = ''s'' then 2 else 1)"
proof -
  have two: "get_bits 47 32 (put_bits 39 32 (b :: byte) (put_bits 47 40 (0 :: byte) (w :: 48 word)))
      = (ucast b :: u16)" for b w
    by (rule bit_eqI) (auto simp: bit_get bit_put bit_simps dest: bit_imp_le_length)
  show ?thesis
    by (rule pp_main_run [OF assms(1,3-9)])
      (auto simp: assms(2) kc705_configured kc705_set_effect reg_simps two simp del: set_effect.simps)
qed

theorem kc705_pp_setup_witness:
  "\<exists>s'. pp_main (example_host (kc705_rd 0) kc705_wr) example_vars example_world [''ipnuma_pingpong'', ''c''] example_state
        = Inr (Looping Client 0x7f0000000100, s')
      \<and> if_v4addr (dev_of s') = 0xC0A80102 \<and> (get_bits 47 32 (if_macaddr (dev_of s')) :: u16) = 2
      \<and> (get_bits 47 32 (dest_macaddr (dev_of s')) :: u16) = 1"
  using kc705_pp_setup [of "example_host (kc705_rd 0) kc705_wr" example_state example_vars example_world
      "0x7f0000000000" "0x49B79100" "[''ipnuma_pingpong'', ''c'']"] example_loaded
  by (auto simp: example_world_def pp_role_of_def)

text \<open>
  Property C15: remote stores arrive where the user asked.  After the setup on a KC705 with the
  partner's 32-bit physical address \<open>a\<close>, the store of the loop, which the CPU issues at the mapped
  page plus \<open>a & 0xfff\<close>, is forwarded with the address \<open>a\<close>: the wrong upper half that
  SETMEM0PADDR writes is not used for headers with a 32-bit address, and an address above 4 GB
  is cut.
\<close>

theorem kc705_remote_store_address:
  assumes "ioc_encoding (abi h)" and "wr_mmio h = kc705_wr" and "mmio0_ptr (drv_of s) \<noteq> 0"
    and "pp_loaded v s" and "0 \<le> w_numa w" and "0 \<le> w_mem w" and "w_mapped w = Some base"
    and "w_typed w = Some a" and "length argv = 2"
    and "pp_main h v w argv s = Inr (Looping role p, s')"
  shows "p = base + (a AND 0xfff)
    \<and> snoop_addr32 (dev_of s') (ucast (fst (map_window bar) + (a AND 0xfff))) = ucast a"
proof -
  obtain s1 where "pp_main h v w argv s = Inr (Looping (pp_role_of (argv ! 1)) (base + (a AND 0xfff)), s1)"
    and dev: "dev_of s1 = set_effect (wr_mmio h) SETMEM0PADDR (to_le 4 a)
       (configured (wr_mmio h) (argv ! 1 = ''s'') (dev_of s))"
    by (rule pp_main_run [OF assms(1,3-9)])
  with assms(10) have "s1 = s'" and "p = base + (a AND 0xfff)" by simp_all
  moreover have "snoop_addr32 (kc705_set SETMEM0PADDR (to_le 4 a) r)
      (ucast (fst (map_window bar) + (a AND 0xfff))) = ucast a" for r
    unfolding snoop_addr32_def kc705_mem0_page
    by (rule bit_eqI) (auto simp: bit_put bit_get bit_simps page_offset [OF map_window_aligned])
  ultimately show ?thesis
    using dev by (simp add: assms(2) kc705_set_effect del: set_effect.simps kc705_set.simps)
qed

theorem kc705_remote_store_address_witness:
  "\<exists>s'. pp_main (example_host (kc705_rd 0) kc705_wr) example_vars example_world [''ipnuma_pingpong'', ''s''] example_state
        = Inr (Looping Server 0x7f0000000100, s')
      \<and> snoop_addr32 (dev_of s') (ucast (fst (map_window 0xEC000000) + 0x100)) = 0x49B79100"
proof -
  let ?h = "example_host (kc705_rd 0) kc705_wr" and ?argv = "[''ipnuma_pingpong'', ''s'']"
  have pre: "ioc_encoding (abi ?h)" "wr_mmio ?h = kc705_wr" "mmio0_ptr (drv_of example_state) \<noteq> 0"
    "0 \<le> w_numa example_world" "0 \<le> w_mem example_world" "w_mapped example_world = Some 0x7f0000000000"
    "w_typed example_world = Some 0x49B79100" "length ?argv = 2"
    by (simp_all add: example_world_def)
  obtain s' where run: "pp_main ?h example_vars example_world ?argv example_state =
      Inr (Looping (pp_role_of (?argv ! 1)) (0x7f0000000000 + (0x49B79100 AND 0xfff)), s')"
    using pp_main_run [OF pre(1,3) example_loaded pre(4-8)] by blast
  from kc705_remote_store_address [OF pre(1-3) example_loaded pre(4-8) run, of "0xEC000000"] run
  show ?thesis by (simp add: pp_role_of_def)
qed

text \<open>
  Property C16: the mapping that \<open>main\<close> asks for starts on a page and covers the 256 KB of the BAR
  exactly when the BAR lies below 4 GB: its address is cut to an \<open>unsigned int\<close>.
\<close>

theorem map_window_covers:
  "4096 dvd unat (fst (map_window bar))
   \<and> (unat (fst (map_window bar)) \<le> unat bar
      \<and> unat bar + 0x40000 \<le> unat (fst (map_window bar)) + unat (snd (map_window bar))
      \<longleftrightarrow> unat bar < 2 ^ 32)"
proof -
  let ?st = "unat (ucast bar :: u32)"
  have st: "?st = unat bar mod 2 ^ 32" by (simp add: unsigned_ucast_eq take_bit_eq_mod)
  have "?st mod 4096 \<le> ?st" by simp
  then show ?thesis
    unfolding map_window_offset
    by (auto simp: st minus_mod_eq_mult_div)
qed

end
