(* ===== verification/Config_Store.thy ===== *)
theory Config_Store
  imports Registers
begin

text \<open>
  What the address requests of the driver promise: the board is a store of four parameters, its own
  and its peer's IPv4 address and MAC.  The specification is a map from parameters to bytes; the
  driver on a board refines it request by request, faults included, wherever the registers the
  driver addresses are plain bytes of the board.
\<close>

section \<open>Parameters\<close>

datatype param = If_v4 | If_mac | Dest_v4 | Dest_mac

primrec param_off :: "param \<Rightarrow> nat" where
  "param_off If_v4 = 0x00"
| "param_off If_mac = 0x04"
| "param_off Dest_v4 = 0x10"
| "param_off Dest_mac = 0x14"

primrec param_len :: "param \<Rightarrow> nat" where
  "param_len If_v4 = 4"
| "param_len If_mac = 6"
| "param_len Dest_v4 = 4"
| "param_len Dest_mac = 6"

primrec set_cmd :: "param \<Rightarrow> ipnuma_cmd" where
  "set_cmd If_v4 = SETIFV4ADDR"
| "set_cmd If_mac = SETIFMACADDR"
| "set_cmd Dest_v4 = SETDESTV4ADDR"
| "set_cmd Dest_mac = SETDESTMACADDR"

primrec get_cmd :: "param \<Rightarrow> ipnuma_cmd" where
  "get_cmd If_v4 = GETIFV4ADDR"
| "get_cmd If_mac = GETIFMACADDR"
| "get_cmd Dest_v4 = GETDESTV4ADDR"
| "get_cmd Dest_mac = GETDESTMACADDR"

text \<open>Parameters are ordered by their place in the window.\<close>

instantiation param :: linorder
begin

definition less_eq_param :: "param \<Rightarrow> param \<Rightarrow> bool" where
  "less_eq_param p q \<longleftrightarrow> param_off p \<le> param_off q"

definition less_param :: "param \<Rightarrow> param \<Rightarrow> bool" where
  "less_param p q \<longleftrightarrow> param_off p < param_off q"

instance
proof
  show "p = q" if "p \<le> q" "q \<le> p" for p q :: param
    using that by (cases p; cases q) (simp_all add: less_eq_param_def)
qed (auto simp: less_eq_param_def less_param_def)

end

lemma param_order: "p < q \<Longrightarrow> param_off p + param_len p \<le> param_off q"
  by (cases p; cases q) (simp_all add: less_param_def)

lemma param_apart:
  "p \<noteq> q \<Longrightarrow> param_off p + param_len p \<le> param_off q \<or> param_off q + param_len q \<le> param_off p"
  using param_order [of p q] param_order [of q p] by (cases p q rule: linorder_cases) simp_all

lemma param_actions [simp]:
  "action_of (set_cmd p) = Write_regs [(param_off p, param_len p)]"
  "action_of (get_cmd p) = Read_regs [(param_off p, param_len p)]"
  by (cases p; simp)+

lemma param_len_bound: "param_len p \<le> 6" "0 < param_len p" "param_off p + param_len p \<le> 26"
  by (cases p; simp)+

section \<open>The specification\<close>

datatype request = Set param u64 | Get param u64

type_synonym store = "memory \<times> (param \<Rightarrow> byte list option)"

text \<open>A request on the store; \<open>None\<close> when it faults, or names a parameter the store does not have.\<close>

primrec store_step :: "request \<Rightarrow> store \<Rightarrow> store option" where
  "store_step (Set p a) s =
     (case (snd s p, load_bytes (fst s) a (param_len p)) of
        (Some _, Some bs) \<Rightarrow> Some (fst s, (snd s)(p \<mapsto> bs))
      | _ \<Rightarrow> None)"
| "store_step (Get p a) s =
     (case snd s p of None \<Rightarrow> None | Some bs \<Rightarrow> map_option (\<lambda>m. (m, snd s)) (store_bytes (fst s) a bs))"

fun run_all :: "('r \<Rightarrow> 's \<Rightarrow> 's option) \<Rightarrow> 'r list \<Rightarrow> 's \<Rightarrow> 's option" where
  "run_all f [] s = Some s"
| "run_all f (r # rs) s = (case f r s of None \<Rightarrow> None | Some t \<Rightarrow> run_all f rs t)"

lemma run_all_append:
  "run_all f (rs @ qs) s = (case run_all f rs s of None \<Rightarrow> None | Some t \<Rightarrow> run_all f qs t)"
  by (induction rs arbitrary: s) (simp_all split: option.split)

text \<open>The same request put to the driver; a result other than 0 counts as a failure.\<close>

primrec request_cmd :: "request \<Rightarrow> ipnuma_cmd" where
  "request_cmd (Set p a) = set_cmd p"
| "request_cmd (Get p a) = get_cmd p"

primrec request_arg :: "request \<Rightarrow> u64" where
  "request_arg (Set p a) = a"
| "request_arg (Get p a) = a"

primrec request_param :: "request \<Rightarrow> param" where
  "request_param (Set p a) = p"
| "request_param (Get p a) = p"

definition driver_step :: "'d host \<Rightarrow> request \<Rightarrow> 'd kstate \<Rightarrow> 'd kstate option" where
  "driver_step h r s =
     (case ipnuma_ioctl h (cmd_code (abi h) (request_cmd r)) (request_arg r) s of
        Inl _ \<Rightarrow> None
      | Inr (z, t) \<Rightarrow> if z = 0 then Some t else None)"

text \<open>What the store looks like in the registers.\<close>

definition stored :: "('d \<Rightarrow> nat \<Rightarrow> byte) \<Rightarrow> (param \<Rightarrow> bool) \<Rightarrow> 'd kstate \<Rightarrow> store" where
  "stored rd has s =
     (mem_of s, \<lambda>p. if has p then Some (rd_range rd (dev_of s) (param_off p) (param_len p)) else None)"

section \<open>The refinement, over any window\<close>

lemma driver_set:
  assumes "ioc_encoding (abi h)" and "mmio0_ptr (drv_of s) \<noteq> 0"
  shows "driver_step h (Set p a) s =
    (case load_bytes (mem_of s) a (param_len p) of
       None \<Rightarrow> None
     | Some bs \<Rightarrow> Some (s\<lparr>dev_of := wr_range (wr_mmio h) (dev_of s) (param_off p) bs\<rparr>))"
  using assms(2)
  by (simp add: driver_step_def ioc_encoding.ioctl_performs [OF assms(1) refl] copy_in_def return_0_def
      split: option.split)

lemma driver_get:
  assumes "ioc_encoding (abi h)" and "mmio0_ptr (drv_of s) \<noteq> 0"
  shows "driver_step h (Get p a) s =
    map_option (\<lambda>m. s\<lparr>mem_of := m\<rparr>)
      (store_bytes (mem_of s) a (rd_range (rd_mmio h) (dev_of s) (param_off p) (param_len p)))"
  using assms(2)
  by (simp add: driver_step_def ioc_encoding.ioctl_performs [OF assms(1) refl] copy_out_def return_0_def
      split: option.split)

lemma driver_step_drv:
  "driver_step h r s = Some t \<Longrightarrow> drv_of t = drv_of s"
proof -
  assume "driver_step h r s = Some t"
  then have "ipnuma_ioctl h (cmd_code (abi h) (request_cmd r)) (request_arg r) s = Inr (0, t)"
    by (simp add: driver_step_def split: sum.splits prod.splits if_splits)
  from request_frame [OF this] show ?thesis by (simp add: framed_def)
qed

text \<open>A window where the parameters a board \<open>has\<close> are plain bytes at the driver's offsets.\<close>

locale config_window = mmio_window rd wr plain size
  for rd :: "'d \<Rightarrow> nat \<Rightarrow> byte" and wr :: "'d \<Rightarrow> nat \<Rightarrow> byte \<Rightarrow> 'd" and plain size +
  fixes has :: "param \<Rightarrow> bool"
  assumes has_plain: "has p \<Longrightarrow> i < param_len p \<Longrightarrow> plain (param_off p + i)"
    and wide: "26 \<le> size"
begin

lemma stored_set:
  assumes "has p" and "length bs = param_len p"
  shows "stored rd has (s\<lparr>dev_of := wr_range wr (dev_of s) (param_off p) bs\<rparr>) =
    (mem_of s, (snd (stored rd has s))(p \<mapsto> bs))"
proof -
  have "rd_range rd (wr_range wr (dev_of s) (param_off p) bs) (param_off p) (param_len p) = bs"
    using rd_after_wr [of bs "param_off p"] has_plain [OF assms(1)] assms(2) by simp
  moreover have "rd_range rd (wr_range wr (dev_of s) (param_off p) bs) (param_off q) (param_len q)
      = rd_range rd (dev_of s) (param_off q) (param_len q)" if "has q" "q \<noteq> p" for q
    using rd_range_frame [of "param_len q" "param_off q" "param_off p" bs] has_plain [OF that(1)]
      param_apart [OF that(2)] param_len_bound(3) [of p] wide assms(2) by auto
  ultimately show ?thesis
    using assms(1) by (auto simp: stored_def fun_eq_iff)
qed

lemma step_refines:
  assumes "ioc_encoding (abi h)" and "rd_mmio h = rd" and "wr_mmio h = wr" and "mmio0_ptr (drv_of s) \<noteq> 0"
    and "has (request_param r)"
  shows "map_option (stored rd has) (driver_step h r s) = store_step r (stored rd has s)"
proof (cases r)
  case (Set p a)
  then have p: "has p" using assms(5) by simp
  show ?thesis
  proof (cases "load_bytes (mem_of s) a (param_len p)")
    case None
    with Set show ?thesis
      by (simp add: driver_set [OF assms(1,4)] stored_def split: option.split)
  next
    case (Some bs)
    with Set stored_set [OF p load_bytes_length [OF Some], of s] p assms(3) show ?thesis
      by (simp add: driver_set [OF assms(1,4)] stored_def)
  qed
next
  case (Get p a)
  with assms(2,5) show ?thesis
    by (simp add: driver_get [OF assms(1,4)] stored_def option.map_comp comp_def cong: if_cong)
qed

lemma run_refines:
  assumes "ioc_encoding (abi h)" and "rd_mmio h = rd" and "wr_mmio h = wr" and "mmio0_ptr (drv_of s) \<noteq> 0"
    and "\<forall>r \<in> set rs. has (request_param r)"
  shows "map_option (stored rd has) (run_all (driver_step h) rs s) = run_all store_step rs (stored rd has s)"
  using assms(4,5)
proof (induction rs arbitrary: s)
  case (Cons r rs)
  have step: "map_option (stored rd has) (driver_step h r s) = store_step r (stored rd has s)"
    using Cons.prems by (intro step_refines assms(1-3)) simp_all
  show ?case
  proof (cases "driver_step h r s")
    case None
    with step show ?thesis by simp
  next
    case (Some t)
    then have "mmio0_ptr (drv_of t) \<noteq> 0" using driver_step_drv [OF Some] Cons.prems(1) by simp
    with Cons.IH [of t] Cons.prems(2) Some step show ?thesis by (cases "store_step r (stored rd has s)") auto
  qed
qed simp

end

section \<open>The boards\<close>

text \<open>The ECP3 board has all four parameters; on the KC705 the MACs are not where the driver looks.\<close>

interpretation ecp3_config: config_window ecp3_rd ecp3_wr ecp3_plain 48 "\<lambda>_. True"
proof unfold_locales
  show "ecp3_plain (param_off p + i)" if "i < param_len p" for p i
    using that by (cases p) (auto simp: ecp3_plain_def)
qed simp

primrec is_v4 :: "param \<Rightarrow> bool" where
  "is_v4 If_v4 = True"
| "is_v4 If_mac = False"
| "is_v4 Dest_v4 = True"
| "is_v4 Dest_mac = False"

interpretation kc705_config: config_window "kc705_rd dbg" kc705_wr kc705_plain 48 is_v4 for dbg
proof unfold_locales
  show "kc705_plain (param_off p + i)" if "is_v4 p" "i < param_len p" for p i
    using that by (cases p) (auto simp: kc705_plain_def kc705_slot_def)
qed simp

text \<open>On the specification, a GET returns the last SET.\<close>

lemma store_keeps:
  assumes "run_all store_step rs s = Some t" and "\<forall>a. Set p a \<notin> set rs"
  shows "snd t p = snd s p"
  using assms
proof (induction rs arbitrary: s)
  case (Cons r rs)
  from Cons.prems(1) obtain u where u: "store_step r s = Some u" "run_all store_step rs u = Some t"
    by (auto split: option.splits)
  have "snd u p = snd s p"
    using u(1) Cons.prems(2) by (cases r) (auto split: option.splits)
  with Cons.IH [OF u(2)] Cons.prems(2) show ?case by auto
qed simp

lemma store_set_get:
  assumes "run_all store_step (Set p a # rs @ [Get p b]) s = Some t" and "\<forall>a. Set p a \<notin> set rs"
  shows "load_bytes (fst t) b (param_len p) = load_bytes (fst s) a (param_len p)"
proof -
  from assms(1) obtain bs u v where bs: "load_bytes (fst s) a (param_len p) = Some bs"
    and u: "u = (fst s, (snd s)(p \<mapsto> bs))" and v: "run_all store_step rs u = Some v"
    and t: "store_step (Get p b) v = Some t"
    by (auto simp: run_all_append split: option.splits)
  have len: "length bs = param_len p" using bs by (rule load_bytes_length)
  have "snd v p = Some bs" using store_keeps [OF v assms(2)] u by simp
  with t have "store_bytes (fst v) b bs = Some (fst t)" by auto
  with len param_len_bound(1) [of p] bs show ?thesis
    by (auto dest!: load_after_store)
qed

section \<open>Properties\<close>

text \<open>
  Property C5: on the ECP3 board every sequence of address requests behaves as on a store of four
  byte strings: the same requests fault, and memory and parameters end up the same.
\<close>

theorem ecp3_config_refines:
  assumes "ioc_encoding (abi h)" and "rd_mmio h = ecp3_rd" and "wr_mmio h = ecp3_wr"
    and "mmio0_ptr (drv_of s) \<noteq> 0"
  shows "map_option (stored ecp3_rd (\<lambda>_. True)) (run_all (driver_step h) rs s) =
    run_all store_step rs (stored ecp3_rd (\<lambda>_. True) s)"
  using assms by (intro ecp3_config.run_refines) simp_all

theorem ecp3_config_refines_witness:
  "map_option (stored ecp3_rd (\<lambda>_. True)) (run_all (driver_step (example_host ecp3_rd ecp3_wr))
      [Set If_mac 0x1000, Get Dest_v4 0x2000] example_state) =
    run_all store_step [Set If_mac 0x1000, Get Dest_v4 0x2000] (stored ecp3_rd (\<lambda>_. True) example_state)"
  by (rule ecp3_config_refines) simp_all

text \<open>
  On the KC705 board the same holds for the two IPv4 addresses.
\<close>

lemma kc705_v4_refines:
  assumes "ioc_encoding (abi h)" and "rd_mmio h = kc705_rd dbg" and "wr_mmio h = kc705_wr"
    and "mmio0_ptr (drv_of s) \<noteq> 0" and "\<forall>r \<in> set rs. is_v4 (request_param r)"
  shows "map_option (stored (kc705_rd dbg) is_v4) (run_all (driver_step h) rs s) =
    run_all store_step rs (stored (kc705_rd dbg) is_v4 s)"
  using assms by (rule kc705_config.run_refines)


text \<open>
  Property C6: on the ECP3 board a GET returns the bytes of the last SET of its parameter, whatever
  requests for the others, and other GETs, come between them.
\<close>

theorem ecp3_last_set_read:
  assumes "ioc_encoding (abi h)" and "rd_mmio h = ecp3_rd" and "wr_mmio h = ecp3_wr"
    and "mmio0_ptr (drv_of s) \<noteq> 0"
    and "run_all (driver_step h) (Set p a # rs @ [Get p b]) s = Some t" and "\<forall>a. Set p a \<notin> set rs"
  shows "load_bytes (mem_of t) b (param_len p) = load_bytes (mem_of s) a (param_len p)"
proof -
  have "run_all store_step (Set p a # rs @ [Get p b]) (stored ecp3_rd (\<lambda>_. True) s) =
      Some (stored ecp3_rd (\<lambda>_. True) t)"
    using ecp3_config.run_refines [OF assms(1-4), of "Set p a # rs @ [Get p b]"] assms(5) by simp
  from store_set_get [OF this assms(6)] show ?thesis by (simp add: stored_def)
qed

lemma example_set: "driver_step (example_host ecp3_rd ecp3_wr) (Set p 0x1000) example_state \<noteq> None"
  using load_bytes_iff [of "mem_of example_state" "0x1000" "param_len p"]
  by (auto simp: driver_set split: option.split)

lemma example_get:
  assumes "mmio0_ptr (drv_of s) \<noteq> 0" and "dom (mem_of s) = UNIV"
  shows "driver_step (example_host ecp3_rd ecp3_wr) (Get p b) s \<noteq> None"
  using store_bytes_iff [of "mem_of s" b "rd_range ecp3_rd (dev_of s) (param_off p) (param_len p)"] assms
  by (auto simp: driver_get)

lemma driver_step_dom: "driver_step h r s = Some t \<Longrightarrow> dom (mem_of t) = dom (mem_of s)"
proof -
  assume "driver_step h r s = Some t"
  then have "ipnuma_ioctl h (cmd_code (abi h) (request_cmd r)) (request_arg r) s = Inr (0, t)"
    by (simp add: driver_step_def split: sum.splits prod.splits if_splits)
  then show ?thesis by (rule request_dom)
qed

theorem ecp3_last_set_read_witness:
  "\<exists>t. run_all (driver_step (example_host ecp3_rd ecp3_wr)) (Set If_mac 0x1000 # [] @ [Get If_mac 0x2003])
      example_state = Some t
    \<and> load_bytes (mem_of t) 0x2003 6 = Some [0, 1, 2, 3, 4, 5]"
proof -
  let ?h = "example_host ecp3_rd ecp3_wr"
  obtain s1 where s1: "driver_step ?h (Set If_mac 0x1000) example_state = Some s1"
    using example_set by blast
  have "mmio0_ptr (drv_of s1) \<noteq> 0" "dom (mem_of s1) = UNIV"
    using driver_step_drv [OF s1] driver_step_dom [OF s1] by simp_all
  then obtain t where "driver_step ?h (Get If_mac 0x2003) s1 = Some t"
    using example_get by blast
  with s1 have run: "run_all (driver_step ?h) (Set If_mac 0x1000 # [] @ [Get If_mac 0x2003]) example_state = Some t"
    by simp
  from ecp3_last_set_read [OF _ _ _ _ run] run show ?thesis by simp
qed

end
