(* ===== verification/File_Ops.thy ===== *)
theory File_Ops
  imports Registers
begin

text \<open>
  The operations of the device file as the kernel calls them through \<open>ipnuma_fops\<close> in
  \<open>software/driver/ipnuma.c\<close>, and sessions: what any sequence of calls may change.
\<close>

section \<open>The table of operations\<close>

text \<open>A call on the file, with its arguments: buffer and count, or command and argument.\<close>

datatype file_op = Open | Release | Read u64 u64 | Write u64 u64 | Poll | Ioctl u32 u64

definition ipnuma_fops :: "'d host \<Rightarrow> file_op \<Rightarrow> 'd kstate \<Rightarrow> kfault + (int \<times> 'd kstate)" where
  "ipnuma_fops h op s =
     (case op of
        Open \<Rightarrow> Inr (ipnuma_open s)
      | Release \<Rightarrow> Inr (ipnuma_release s)
      | Read buf n \<Rightarrow> Inr (sint (ipnuma_read n), s)
      | Write buf n \<Rightarrow> Inr (sint (ipnuma_write n), s)
      | Poll \<Rightarrow> (case ipnuma_poll s of (ready, t) \<Rightarrow> Inr (uint ready, t))
      | Ioctl cmd arg \<Rightarrow> ipnuma_ioctl h cmd arg s)"

text \<open>A sequence of calls, with their results; a fault ends it.\<close>

fun session :: "'d host \<Rightarrow> file_op list \<Rightarrow> 'd kstate \<Rightarrow> kfault + (int list \<times> 'd kstate)" where
  "session h [] s = Inr ([], s)"
| "session h (op # ops) s =
     then_do (ipnuma_fops h op s) (\<lambda>(z, t). then_do (session h ops t) (\<lambda>(zs, u). Inr (z # zs, u)))"

section \<open>What a session may change\<close>

text \<open>The memory the calls may write: eight bytes at the argument of each \<open>ioctl\<close>.\<close>

primrec op_span :: "file_op \<Rightarrow> u64 set" where
  "op_span Open = {}"
| "op_span Release = {}"
| "op_span (Read buf n) = {}"
| "op_span (Write buf n) = {}"
| "op_span Poll = {}"
| "op_span (Ioctl cmd arg) = span arg 8"

definition session_span :: "file_op list \<Rightarrow> u64 set" where
  "session_span ops = (\<Union>op \<in> set ops. op_span op)"

definition kept_outside :: "u64 set \<Rightarrow> 'd kstate \<Rightarrow> 'd kstate \<Rightarrow> bool" where
  "kept_outside A s t \<longleftrightarrow> drv_of t = drv_of s \<and> dom (mem_of t) = dom (mem_of s)
     \<and> (\<forall>x. x \<notin> A \<longrightarrow> mem_of t x = mem_of s x)"

lemma kept_outside_trans:
  "kept_outside A s t \<Longrightarrow> kept_outside B t u \<Longrightarrow> kept_outside (A \<union> B) s u"
  by (simp add: kept_outside_def)

lemma kept_outside_refl [simp]: "kept_outside A s s"
  by (simp add: kept_outside_def)

lemma fop_keeps:
  assumes "ipnuma_fops h op s = Inr (z, t)"
  shows "kept_outside (op_span op) s t"
proof (cases op)
  case (Ioctl cmd arg)
  with assms have run: "ipnuma_ioctl h cmd arg s = Inr (z, t)" by (simp add: ipnuma_fops_def)
  show ?thesis
    using request_frame [OF run] request_dom [OF run] by (simp add: Ioctl kept_outside_def framed_def)
qed (use assms in \<open>simp_all add: ipnuma_fops_def ipnuma_open_def ipnuma_release_def ipnuma_poll_def\<close>)

lemma session_keeps: "session h ops s = Inr (zs, t) \<Longrightarrow> kept_outside (session_span ops) s t \<and> length zs = length ops"
proof (induction ops arbitrary: s zs)
  case (Cons op ops)
  from Cons.prems obtain z u ys where u: "ipnuma_fops h op s = Inr (z, u)"
    and rest: "session h ops u = Inr (ys, t)" and "zs = z # ys"
    by (auto simp: then_do_Inr_iff)
  moreover have "session_span (op # ops) = op_span op \<union> session_span ops" by (simp add: session_span_def)
  ultimately show ?case
    using kept_outside_trans [OF fop_keeps [OF u]] Cons.IH [OF rest] by simp
qed simp

lemma session_append:
  "session h (ops @ ops') s =
     then_do (session h ops s) (\<lambda>(zs, t). then_do (session h ops' t) (\<lambda>(ys, u). Inr (zs @ ys, u)))"
  by (induction ops arbitrary: s) (auto simp: then_do_def split: sum.splits)

text \<open>A call that is not an \<open>ioctl\<close> never faults and changes nothing.\<close>

primrec quiet :: "file_op \<Rightarrow> bool" where
  "quiet Open = True"
| "quiet Release = True"
| "quiet (Read buf n) = True"
| "quiet (Write buf n) = True"
| "quiet Poll = True"
| "quiet (Ioctl cmd arg) = False"

lemma quiet_fop: "quiet op \<Longrightarrow> \<exists>z. ipnuma_fops h op s = Inr (z, s)"
  by (cases op) (simp_all add: ipnuma_fops_def ipnuma_open_def ipnuma_release_def ipnuma_poll_def)

lemma quiet_run:
  assumes "\<forall>op \<in> set ops. quiet op"
  shows "\<exists>zs. session h ops s = Inr (zs, s)"
  using assms
proof (induction ops)
  case (Cons op ops)
  then obtain z zs where "ipnuma_fops h op s = Inr (z, s)" "session h ops s = Inr (zs, s)"
    using quiet_fop [of op h s] by auto
  then show ?case by simp
qed simp

section \<open>Properties\<close>

text \<open>
  Property C11: whatever calls are made on the device file, in whatever order, as long as none faults:
  the driver's variables and the set of mapped addresses stay as they were, memory changes only in
  the eight bytes at the arguments of the ioctl requests, and every call has one result.
\<close>

theorem session_frame:
  assumes "session h ops s = Inr (zs, t)"
  shows "drv_of t = drv_of s \<and> dom (mem_of t) = dom (mem_of s) \<and> length zs = length ops
    \<and> (\<forall>x. x \<notin> session_span ops \<longrightarrow> mem_of t x = mem_of s x)"
  using session_keeps [OF assms] by (simp add: kept_outside_def)

theorem session_frame_witness:
  "\<exists>zs t. session (example_host ecp3_rd ecp3_wr) [Open, Read 0x1000 5, Ioctl 0 0x1000, Poll] example_state = Inr (zs, t)
    \<and> mem_of t 0x2000 = mem_of example_state 0x2000"
proof -
  let ?h = "example_host ecp3_rd ecp3_wr"
  have "(0 :: u32) \<notin> range (cmd_code generic_ioc)"
  proof
    assume "(0 :: u32) \<in> range (cmd_code generic_ioc)"
    then obtain c where "cmd_code generic_ioc c = 0" by auto
    moreover have "bit (cmd_code generic_ioc c) 15" for c
      by (cases c) (simp_all add: cmd_code.simps generic_ioc_def IPNUMA_IOCTL_MAGIC_def bit_simps)
    ultimately show False by (metis bit_0_eq bot_apply bot_bool_def)
  qed
  then have "ipnuma_ioctl ?h 0 0x1000 example_state = Inr (- ENOTTY, example_state)"
    by (intro ioc_encoding.ioctl_unknown) simp_all
  then have run: "session ?h [Open, Read 0x1000 5, Ioctl 0 0x1000, Poll] example_state =
      Inr ([0, sint (ipnuma_read 5), - ENOTTY, 0], example_state)"
    by (simp add: ipnuma_fops_def ipnuma_open_def ipnuma_poll_def)
  then show ?thesis using session_frame [OF run] by blast
qed

lemma count_result:
  "sint (ipnuma_read n) = sint (ucast n :: u32)" "sint (ipnuma_write n) = sint (ucast n :: u32)"
  by (simp_all add: ipnuma_read_def ipnuma_write_def sint_up_scast is_up)

lemma count_cut:
  "sint (ucast n :: u32) = uint n \<longleftrightarrow> n < (2 ^ 31 :: u64)"
  "sint (ucast n :: u32) < 0 \<longleftrightarrow> bit (n :: u64) 31"
proof -
  have cut: "sint (ucast n :: u32) = signed_take_bit 31 (uint n)"
    by (simp add: sint_uint unsigned_ucast_eq signed_take_bit_take_bit)
  have small: "n < 2 ^ 31 \<longleftrightarrow> uint n < 2 ^ 31" by (simp add: word_less_def)
  show "sint (ucast n :: u32) = uint n \<longleftrightarrow> n < 2 ^ 31"
  proof
    assume "sint (ucast n :: u32) = uint n"
    moreover have "sint (ucast n :: u32) < 2 ^ 31" using sint_less [of "ucast n :: u32"] by simp
    ultimately show "n < 2 ^ 31" using small by simp
  next
    assume "n < 2 ^ 31"
    then have "uint n < 2 ^ 31" using small by simp
    then have "signed_take_bit 31 (uint n) = uint n"
      using uint_nonnegative [of n] by (intro signed_take_bit_int_eq_self) linarith+
    then show "sint (ucast n :: u32) = uint n" by (simp add: cut)
  qed
  show "sint (ucast n :: u32) < 0 \<longleftrightarrow> bit n 31"
    by (simp add: cut signed_take_bit_negative_iff bit_uint_iff)
qed

text \<open>
  Property C12: read and write touch neither the driver nor memory, and claim success all the same:
  the result is the count itself exactly for counts below 2 GB, and it is negative, like an error,
  exactly when bit 31 of the count is set.
\<close>

theorem read_write_result:
  "\<exists>z. ipnuma_fops h (Read buf n) s = Inr (z, s) \<and> ipnuma_fops h (Write buf n) s = Inr (z, s)
     \<and> (z = uint n \<longleftrightarrow> n < 2 ^ 31) \<and> (z < 0 \<longleftrightarrow> bit n 31)"
  by (intro exI [of _ "sint (ucast n :: u32)"]) (simp add: ipnuma_fops_def count_result count_cut)

end
