(* ===== verification/Clib.thy ===== *)
theory Clib
  imports Prelude "HOL-Library.Char_ord"
begin

text \<open>
  What the user programs use of the C library: \<open>strtol\<close> and \<open>strtoll\<close> with base 0, \<open>atoi\<close>,
  \<open>strcpy\<close> into a fixed buffer, \<open>htons\<close>, and the sockets they send and receive datagrams on.
  Sockets and \<open>inet_aton\<close> are parameters; what a program does with them is a list of events.
\<close>

section \<open>Numbers\<close>

definition c_isspace :: "char \<Rightarrow> bool" where
  "c_isspace c \<longleftrightarrow> of_char c \<in> {9, 10, 11, 12, 13, 32 :: nat}"

definition digit_val :: "char \<Rightarrow> nat option" where
  "digit_val c =
     (let n = (of_char c :: nat) in
      if 48 \<le> n \<and> n \<le> 57 then Some (n - 48)
      else if 97 \<le> n \<and> n \<le> 122 then Some (n - 87)
      else if 65 \<le> n \<and> n \<le> 90 then Some (n - 55)
      else None)"

text \<open>The value of the longest prefix of digits below the base.\<close>

fun digits_value :: "nat \<Rightarrow> nat \<Rightarrow> string \<Rightarrow> nat" where
  "digits_value b acc [] = acc"
| "digits_value b acc (c # cs) =
     (case digit_val c of
        None \<Rightarrow> acc
      | Some d \<Rightarrow> if d < b then digits_value b (b * acc + d) cs else acc)"

definition sign_of :: "string \<Rightarrow> int \<times> string" where
  "sign_of s = (case s of
     c # cs \<Rightarrow> if c = CHR ''-'' then (-1, cs) else if c = CHR ''+'' then (1, cs) else (1, s)
   | [] \<Rightarrow> (1, []))"

text \<open>Base 0: a \<open>0x\<close> before a hexadecimal digit, else a leading \<open>0\<close>, else decimal.\<close>

definition magnitude_0 :: "string \<Rightarrow> nat" where
  "magnitude_0 s =
     (case s of
        c0 # c1 # c2 # cs \<Rightarrow>
          if c0 = CHR ''0'' \<and> (c1 = CHR ''x'' \<or> c1 = CHR ''X'')
             \<and> (case digit_val c2 of None \<Rightarrow> False | Some d \<Rightarrow> d < 16)
          then digits_value 16 0 (c2 # cs)
          else if c0 = CHR ''0'' then digits_value 8 0 s
          else digits_value 10 0 s
      | c # cs \<Rightarrow> if c = CHR ''0'' then digits_value 8 0 s else digits_value 10 0 s
      | [] \<Rightarrow> 0)"

text \<open>\<open>strtol(s, NULL, 0)\<close> and \<open>strtoll(s, NULL, 0)\<close> on LP64: clamped to 64 bits.\<close>

definition strtol_0 :: "string \<Rightarrow> u64" where
  "strtol_0 s =
     (case sign_of (dropWhile c_isspace s) of
        (sg, cs) \<Rightarrow> word_of_int (max (- (2 ^ 63)) (min (2 ^ 63 - 1) (sg * int (magnitude_0 cs)))))"

text \<open>\<open>atoi\<close>: the conversion of \<open>strtol\<close> with base 10, cut to an \<open>int\<close>.\<close>

definition atoi :: "string \<Rightarrow> int" where
  "atoi s =
     (case sign_of (dropWhile c_isspace s) of
        (sg, cs) \<Rightarrow>
          sint (word_of_int (max (- (2 ^ 63)) (min (2 ^ 63 - 1) (sg * int (digits_value 10 0 cs)))) :: u32))"

text \<open>What \<open>strtol\<close> reads back: \<open>printf("%lx")\<close>.\<close>

definition hex_char :: "nat \<Rightarrow> char" where
  "hex_char d = (if d < 10 then char_of (48 + d) else char_of (87 + d))"

fun hex_digits :: "nat \<Rightarrow> string" where
  "hex_digits n = (if n < 16 then [hex_char n] else hex_digits (n div 16) @ [hex_char (n mod 16)])"

declare hex_digits.simps [simp del]

lemma digit_val_hex: "d < 16 \<Longrightarrow> digit_val (hex_char d) = Some d"
  by (simp add: digit_val_def hex_char_def Let_def of_char_mod_256)

lemma digits_value_append:
  "(\<forall>c \<in> set xs. \<exists>d < b. digit_val c = Some d) \<Longrightarrow>
     digits_value b acc (xs @ ys) = digits_value b (digits_value b acc xs) ys"
  by (induction xs arbitrary: acc) auto

lemma hex_digits_all: "\<forall>c \<in> set (hex_digits n). \<exists>d < 16. digit_val c = Some d"
proof (induction n rule: hex_digits.induct)
  case (1 n)
  then show ?case
    by (subst hex_digits.simps) (auto simp: digit_val_hex)
qed

lemma hex_digits_value: "digits_value 16 0 (hex_digits n) = n"
proof (induction n rule: hex_digits.induct)
  case (1 n)
  show ?case
  proof (cases "n < 16")
    case True
    then show ?thesis by (subst hex_digits.simps) (simp add: digit_val_hex)
  next
    case False
    then have "digits_value 16 0 (hex_digits n) =
        digits_value 16 (digits_value 16 0 (hex_digits (n div 16))) [hex_char (n mod 16)]"
      by (subst hex_digits.simps) (simp add: digits_value_append [OF hex_digits_all])
    with False 1 show ?thesis by (simp add: digit_val_hex)
  qed
qed

lemma hex_digits_Cons: obtains c cs d where "hex_digits n = c # cs" "digit_val c = Some d" "d < 16"
proof (cases "hex_digits n")
  case Nil
  then show ?thesis by (subst (asm) hex_digits.simps) (simp split: if_splits)
next
  case (Cons c cs)
  then show ?thesis using hex_digits_all [of n] that by auto
qed

lemma strtol_hex:
  assumes "n < 2 ^ 63"
  shows "strtol_0 (''0x'' @ hex_digits n) = of_nat n"
proof -
  obtain c cs d where hd: "hex_digits n = c # cs" and d: "digit_val c = Some d" "d < 16"
    by (rule hex_digits_Cons)
  have "magnitude_0 (CHR ''0'' # CHR ''x'' # c # cs) = n"
    using d hex_digits_value [of n] by (simp add: magnitude_0_def hd)
  then show ?thesis
    using assms by (simp add: strtol_0_def sign_of_def c_isspace_def hd)
qed

section \<open>Strings and byte order\<close>

text \<open>\<open>strcpy\<close> into an array of \<open>n\<close> characters; \<open>None\<close> when it writes past its end.\<close>

definition strcpy_into :: "nat \<Rightarrow> string \<Rightarrow> string option" where
  "strcpy_into n s = (if length s < n then Some s else None)"

text \<open>\<open>htons\<close> on a little-endian machine: the value whose bytes in memory are most significant first.\<close>

definition htons :: "u16 \<Rightarrow> u16" where
  "htons w = of_le [byte_at 1 w, byte_at 0 w]"

lemma htons_bytes: "to_le 2 (htons w) = [byte_at 1 w, byte_at 0 w]"
  using to_le_of_le [of "[byte_at 1 w, byte_at 0 w]", where ?'a = 16]
  by (simp add: htons_def numeral_2_eq_2)

section \<open>Datagrams\<close>


record sockaddr =
  sin_port :: u16
  sin_addr :: u32

datatype io_event =
    Stderr string
  | Stdout string "u64 list"      \<comment> \<open>a format and the values it prints\<close>
  | Perror string
  | Sent sockaddr "byte list"
  | Usleep nat

text \<open>How a run of a program ends, with what it did.\<close>

datatype run_end = Exit int | Overflow | Running

type_synonym program_run = "io_event list \<times> run_end"

record net_env =
  inet_aton :: "string \<Rightarrow> u32 option"
  socket_ret :: int
  sendto_ret :: "nat \<Rightarrow> int"    \<comment> \<open>of the n-th datagram\<close>

text \<open>
  The address of the peer: zeroed, then port and address filled in.  \<open>inet_aton\<close> leaves the address
  zero when it rejects the name, which no program checks.
\<close>

definition peer_addr :: "net_env \<Rightarrow> u16 \<Rightarrow> string \<Rightarrow> sockaddr" where
  "peer_addr e port name =
     \<lparr>sin_port = htons port, sin_addr = (case inet_aton e name of None \<Rightarrow> 0 | Some a \<Rightarrow> a)\<rparr>"

text \<open>One \<open>sendto\<close> with the message the programs print when it fails.\<close>

definition send_events :: "net_env \<Rightarrow> nat \<Rightarrow> sockaddr \<Rightarrow> byte list \<Rightarrow> io_event list" where
  "send_events e n a bs = Sent a bs # (if sendto_ret e n < 0 then [Perror ''sendto()''] else [])"

text \<open>The datagrams of a run, in order.\<close>

fun datagrams :: "io_event list \<Rightarrow> (sockaddr \<times> byte list) list" where
  "datagrams [] = []"
| "datagrams (Sent a bs # es) = (a, bs) # datagrams es"
| "datagrams (_ # es) = datagrams es"

lemma datagrams_append [simp]: "datagrams (xs @ ys) = datagrams xs @ datagrams ys"
  by (induction xs rule: datagrams.induct) simp_all

lemma datagrams_send [simp]: "datagrams (send_events e n a bs) = [(a, bs)]"
  by (simp add: send_events_def)

text \<open>The port a peer address puts on the wire is the one the program named.\<close>

definition wire_port :: "sockaddr \<Rightarrow> u16" where
  "wire_port a = (case to_le 2 (sin_port a) of [h, l] \<Rightarrow> of_le [l, h] | _ \<Rightarrow> 0)"

lemma wire_port_peer [simp]: "wire_port (peer_addr e port name) = port"
proof -
  have "of_le [byte_at 0 port, byte_at 1 port] = port"
    using of_le_to_le [of 2 port] by (simp add: to_le_def numeral_2_eq_2)
  then show ?thesis by (simp add: wire_port_def peer_addr_def htons_bytes del: of_le.simps)
qed

end
