(* ===== verification/Virt2phys.thy ===== *)
theory Virt2phys
  imports File_Ops Clib
begin

text \<open>
  The stand-alone address translator: the module \<open>software/virt2phys/virt2phys.c\<close>, which answers
  one ioctl with its own copy of the page-table walk, and the program
  \<open>software/virt2phys/user.c\<close>, which asks it for the physical address of a variable.
\<close>

section \<open>The module\<close>

definition virt2phys_open :: int where
  "virt2phys_open = 0"

definition virt2phys_release :: int where
  "virt2phys_release = 0"

definition virt2phys_read :: "u64 \<Rightarrow> int" where
  "virt2phys_read count = 0"

definition virt2phys_write :: "u64 \<Rightarrow> int" where
  "virt2phys_write count = 0"

definition POLLHUP :: u32 where
  "POLLHUP = 0x10"

definition virt2phys_poll :: u32 where
  "virt2phys_poll = (let retmask = 0 in retmask OR POLLHUP)"

definition virt2phys_ioctl :: "pt_env \<Rightarrow> u64 \<Rightarrow> u32 \<Rightarrow> u64 \<Rightarrow> memory \<Rightarrow> kfault + (int \<times> memory)" where
  "virt2phys_ioctl env junk cmd arg m =
     (if cmd = 1 then
        (case load_u64 m arg of
           None \<Rightarrow> Inl Bad_pointer
         | Some va \<Rightarrow>
             let ret = snd (virt2phys_any_v2p env junk va) in
             (case store_u64 m arg ret of
                None \<Rightarrow> Inl Bad_pointer
              | Some m' \<Rightarrow> Inr (0, m')))
      else Inr (- ENOTTY, m))"

definition virt2phys_fops :: "pt_env \<Rightarrow> u64 \<Rightarrow> file_op \<Rightarrow> memory \<Rightarrow> kfault + (int \<times> memory)" where
  "virt2phys_fops env junk op m =
     (case op of
        Open \<Rightarrow> Inr (virt2phys_open, m)
      | Release \<Rightarrow> Inr (virt2phys_release, m)
      | Read buf n \<Rightarrow> Inr (virt2phys_read n, m)
      | Write buf n \<Rightarrow> Inr (virt2phys_write n, m)
      | Poll \<Rightarrow> Inr (uint virt2phys_poll, m)
      | Ioctl cmd arg \<Rightarrow> virt2phys_ioctl env junk cmd arg m)"

text \<open>
  Loading and unloading: \<open>rc\<close> is the answer of \<open>misc_register\<close>.  The second component tells whether
  the device exists afterwards.
\<close>

definition virt2phys_init :: "int \<Rightarrow> int \<times> bool" where
  "virt2phys_init rc = (if rc \<noteq> 0 then (rc, False) else (0, True))"

definition virt2phys_cleanup :: "bool \<Rightarrow> bool" where
  "virt2phys_cleanup registered = False"

section \<open>The same request on both drivers\<close>

text \<open>What a request of the module does to a machine that also carries the IP-NUMA driver.\<close>

definition lift_memory :: "'d kstate \<Rightarrow> kfault + (int \<times> memory) \<Rightarrow> kfault + (int \<times> 'd kstate)" where
  "lift_memory s r = then_do r (\<lambda>(z, m). Inr (z, s\<lparr>mem_of := m\<rparr>))"

lemma ioctl_cong: "(\<And>va. load_u64 m arg = Some va \<Longrightarrow> snd (any_v2p env j va) = snd (any_v2p env k va)) \<Longrightarrow>
    virt2phys_ioctl env j 1 arg m = virt2phys_ioctl env k 1 arg m"
  by (simp add: virt2phys_ioctl_def virt2phys_any_v2p_eq Let_def split: option.split)

text \<open>With the same indeterminate value the two requests are the same function.\<close>

lemma translation_agrees:
  assumes "ioc_encoding (abi h)"
  shows "lift_memory s (virt2phys_ioctl (page_tables h) (v2p_junk h) 1 arg (mem_of s)) =
    ipnuma_ioctl h (cmd_code (abi h) GETPADDR) arg s"
  by (simp add: ioc_encoding.ioctl_performs [OF assms refl] virt2phys_ioctl_def lift_memory_def Let_def
      store_out_def return_0_def virt2phys_any_v2p_eq split: option.split)

lemma ioctl_at_hole:
  assumes "load_u64 m arg = Some va" and "stops_at_hole env va"
  shows "\<exists>m'. virt2phys_ioctl env junk 1 arg m = Inr (0, m') \<and> store_u64 m arg junk = Some m'"
proof -
  have "span arg 8 \<subseteq> dom m"
    using assms(1) load_bytes_iff [of m arg 8] by (auto simp: load_u64_def)
  then obtain m' where "store_u64 m arg junk = Some m'"
    using store_bytes_iff [of m arg "to_le 8 junk"] by (auto simp: store_u64_def)
  with assms show ?thesis
    using any_v2p_hole [of env junk va] by (simp add: virt2phys_ioctl_def virt2phys_any_v2p_eq Let_def)
qed

section \<open>The user program\<close>

text \<open>The program's own accesses to its variables.\<close>

definition poke :: "u64 \<Rightarrow> byte list \<Rightarrow> memory \<Rightarrow> kfault + memory" where
  "poke p bs m = (case store_bytes m p bs of None \<Rightarrow> Inl Bad_pointer | Some m' \<Rightarrow> Inr m')"

definition peek :: "u64 \<Rightarrow> nat \<Rightarrow> memory \<Rightarrow> kfault + 'a::len word" where
  "peek p n m = (case load_bytes m p n of None \<Rightarrow> Inl Bad_pointer | Some bs \<Rightarrow> Inr (of_le bs))"

text \<open>\<open>n\<close> rounds of the endless loop; \<open>a_i\<close> and \<open>a_pa\<close> are the addresses of \<open>i\<close> and \<open>pa\<close>.\<close>

primrec v2p_user_loop :: "u64 \<Rightarrow> u64 \<Rightarrow> nat \<Rightarrow> memory \<Rightarrow> kfault + io_event list" where
  "v2p_user_loop a_i a_pa 0 m = Inr []"
| "v2p_user_loop a_i a_pa (Suc n) m =
     then_do (peek a_i 4 m) (\<lambda>i. then_do (peek a_pa 8 m) (\<lambda>pa.
       then_do (v2p_user_loop a_i a_pa n m) (\<lambda>ev.
         Inr (Stdout ''i=%d, &i=%p, Physical Address=%012llx'' [scast (i :: u32), a_i, pa] # Usleep 10000 # ev))))"

definition v2p_user_main ::
    "pt_env \<Rightarrow> u64 \<Rightarrow> int \<Rightarrow> u64 \<Rightarrow> u64 \<Rightarrow> nat \<Rightarrow> memory \<Rightarrow> kfault + (program_run \<times> memory)" where
  "v2p_user_main env junk fd a_i a_pa n m =
     (if fd < 0 then Inr (([Stderr ''cannot open /dev/virt2phys''], Exit 1), m)
      else
      then_do (poke a_pa (to_le 8 a_i) m) (\<lambda>m.
      then_do (virt2phys_ioctl env junk 1 a_pa m) (\<lambda>(z, m).
      if z < 0 then Inr (([Stderr ''cannot IOCTL''], Exit 1), m)
      else
      then_do (peek a_pa 8 m) (\<lambda>pa.
      then_do (poke a_i (to_le 4 (123 :: u32)) m) (\<lambda>m.
      then_do (v2p_user_loop a_i a_pa n m) (\<lambda>ev.
        Inr ((Stdout ''physical address=%012llX'' [pa] # ev, Running), m)))))))"

text \<open>What the loop prints in \<open>n\<close> rounds.\<close>

definition v2p_lines :: "u64 \<Rightarrow> u64 \<Rightarrow> nat \<Rightarrow> io_event list" where
  "v2p_lines a_i pa n =
     concat (replicate n [Stdout ''i=%d, &i=%p, Physical Address=%012llx'' [123, a_i, pa], Usleep 10000])"

lemma poke_run:
  assumes "span p (length bs) \<subseteq> dom m" and "length bs \<le> 8"
  obtains m' where "poke p bs m = Inr m'" "dom m' = dom m" "load_bytes m' p (length bs) = Some bs"
    "\<forall>q k. span q k \<inter> span p (length bs) = {} \<longrightarrow> load_bytes m' q k = load_bytes m q k"
proof -
  obtain m' where m: "store_bytes m p bs = Some m'" using assms(1) store_bytes_iff [of m p bs] by auto
  show ?thesis
  proof (rule that)
    show "load_bytes m' p (length bs) = Some bs" using load_after_store [OF m] assms(2) by simp
    show "\<forall>q k. span q k \<inter> span p (length bs) = {} \<longrightarrow> load_bytes m' q k = load_bytes m q k"
      using load_other_store [OF m] by (simp add: Int_commute)
  qed (use m store_bytes_dom [OF m] in \<open>simp_all add: poke_def\<close>)
qed

lemma translate_run:
  assumes "load_bytes m p 8 = Some (to_le 8 va)"
  obtains m' where "virt2phys_ioctl env junk 1 p m = Inr (0, m')" "dom m' = dom m"
    "load_bytes m' p 8 = Some (to_le 8 (snd (any_v2p env junk va)))"
proof -
  let ?pa = "snd (any_v2p env junk va)"
  have "span p 8 \<subseteq> dom m" using assms load_bytes_iff [of m p 8] by simp
  then obtain m' where m': "store_bytes m p (to_le 8 ?pa) = Some m'"
    using store_bytes_iff [of m p "to_le 8 ?pa"] by auto
  show ?thesis
  proof (rule that)
    show "virt2phys_ioctl env junk 1 p m = Inr (0, m')"
      using assms m' by (simp add: virt2phys_ioctl_def load_u64_def store_u64_def of_le_to_le virt2phys_any_v2p_eq Let_def)
    show "load_bytes m' p 8 = Some (to_le 8 ?pa)" using load_after_store [OF m'] by simp
  qed (rule store_bytes_dom [OF m'])
qed

lemma loop_run:
  assumes "load_bytes m a_i 4 = Some (to_le 4 (123 :: u32))" and "load_bytes m a_pa 8 = Some (to_le 8 pa)"
  shows "v2p_user_loop a_i a_pa n m = Inr (v2p_lines a_i pa n)"
proof -
  have "peek a_i 4 m = Inr (123 :: u32)" and "peek a_pa 8 m = Inr pa"
    using assms by (simp_all add: peek_def of_le_to_le)
  then show ?thesis by (induction n) (simp_all add: v2p_lines_def)
qed

section \<open>Properties\<close>

text \<open>
  Property C26: the translation request of the stand-alone module and GETPADDR of the IP-NUMA driver
  agree, although the uninitialised local of each walk starts with a value of its own.  Unless the
  walk stops at a hole they have the same faults, the same result and the same memory, on every
  state.  At a hole both return 0, and each has stored its own indeterminate value at the pointer.
\<close>

theorem virt2phys_ioctl_agrees:
  assumes "ioc_encoding (abi h)"
  shows "(if \<exists>va. load_u64 (mem_of s) arg = Some va \<and> stops_at_hole (page_tables h) va
      then \<exists>m m'. lift_memory s (virt2phys_ioctl (page_tables h) junk 1 arg (mem_of s)) = Inr (0, s\<lparr>mem_of := m\<rparr>)
        \<and> ipnuma_ioctl h (cmd_code (abi h) GETPADDR) arg s = Inr (0, s\<lparr>mem_of := m'\<rparr>)
        \<and> store_u64 (mem_of s) arg junk = Some m \<and> store_u64 (mem_of s) arg (v2p_junk h) = Some m'
      else lift_memory s (virt2phys_ioctl (page_tables h) junk 1 arg (mem_of s)) =
        ipnuma_ioctl h (cmd_code (abi h) GETPADDR) arg s)"
proof (cases "\<exists>va. load_u64 (mem_of s) arg = Some va \<and> stops_at_hole (page_tables h) va")
  case True
  then obtain va where va: "load_u64 (mem_of s) arg = Some va" "stops_at_hole (page_tables h) va" by blast
  from ioctl_at_hole [OF va, of junk] ioctl_at_hole [OF va, of "v2p_junk h"] True show ?thesis
    by (auto simp: lift_memory_def simp flip: translation_agrees [OF assms])
next
  case False
  have "snd (any_v2p (page_tables h) junk va) = snd (any_v2p (page_tables h) (v2p_junk h) va)"
    if "load_u64 (mem_of s) arg = Some va" for va
    using False that any_v2p_hole [of "page_tables h" junk va]
      any_v2p_hole [of "page_tables h" "v2p_junk h" va] by metis
  then have "virt2phys_ioctl (page_tables h) junk 1 arg (mem_of s) =
      virt2phys_ioctl (page_tables h) (v2p_junk h) 1 arg (mem_of s)"
    by (rule ioctl_cong)
  with False show ?thesis
    using translation_agrees [OF assms, of s arg] by (simp only: if_False)
qed

text \<open>A machine whose tables map large pages only: every walk stops at the second level.\<close>

definition large_pages_host :: "regs host" where
  "large_pages_host = (example_host ecp3_rd ecp3_wr)\<lparr>page_tables := x86_env (\<lambda>_. 0x81) 0\<rparr>"

lemma large_pages_hole: "stops_at_hole (page_tables large_pages_host) va"
  by (simp add: large_pages_host_def stops_at_hole_def walk_stops_def levels_def level_ok_def x86_env_def
      bad_address_def p4d_hole_def bit_iff_odd)

theorem virt2phys_ioctl_agrees_witness:
  "\<exists>m m'. lift_memory example_state (virt2phys_ioctl (page_tables large_pages_host) 9 1 0x1000 (mem_of example_state))
       = Inr (0, example_state\<lparr>mem_of := m\<rparr>)
     \<and> ipnuma_ioctl large_pages_host (cmd_code generic_ioc GETPADDR) 0x1000 example_state
       = Inr (0, example_state\<lparr>mem_of := m'\<rparr>)
     \<and> store_u64 (mem_of example_state) 0x1000 9 = Some m \<and> store_u64 (mem_of example_state) 0x1000 0 = Some m'"
proof -
  have abi: "abi large_pages_host = generic_ioc" "v2p_junk large_pages_host = 0"
    by (simp_all add: large_pages_host_def example_host_def)
  have "\<exists>va. load_u64 (mem_of example_state) 0x1000 = Some va \<and> stops_at_hole (page_tables large_pages_host) va"
    by (simp add: load_u64_def large_pages_hole)
  then show ?thesis
    using virt2phys_ioctl_agrees [of large_pages_host example_state "0x1000" 9] by (simp only: abi example_simps if_True simp_thms)
qed

text \<open>
  Property C27: on a page the walk translates, the user program prints the physical address of its
  variable once, then 123 and that address in every round, and the variable holds 123.
\<close>

theorem v2p_user_prints:
  assumes "0 \<le> fd" and "span a_i 4 \<subseteq> dom m" and "span a_pa 8 \<subseteq> dom m" and "span a_i 4 \<inter> span a_pa 8 = {}"
    and "any_v2p env junk a_i = ([], pa)"
  shows "\<exists>m'. v2p_user_main env junk fd a_i a_pa n m =
      Inr ((Stdout ''physical address=%012llX'' [pa] # v2p_lines a_i pa n, Running), m')
    \<and> load_bytes m' a_i 4 = Some (to_le 4 (123 :: u32))"
proof -
  obtain m1 where m1: "poke a_pa (to_le 8 a_i) m = Inr m1" "dom m1 = dom m"
    "load_bytes m1 a_pa 8 = Some (to_le 8 a_i)"
    using poke_run [of a_pa "to_le 8 a_i" m] assms(3) by (metis le_refl length_to_le)
  obtain m2 where m2: "virt2phys_ioctl env junk 1 a_pa m1 = Inr (0, m2)" "dom m2 = dom m1"
    "load_bytes m2 a_pa 8 = Some (to_le 8 pa)"
    using translate_run [OF m1(3), of env junk] assms(5) by auto
  obtain m3 where m3: "poke a_i (to_le 4 (123 :: u32)) m2 = Inr m3"
    "load_bytes m3 a_i 4 = Some (to_le 4 (123 :: u32))" "load_bytes m3 a_pa 8 = load_bytes m2 a_pa 8"
    using poke_run [of a_i "to_le 4 (123 :: u32)" m2] assms(2,4) m1(2) m2(2)
    by (metis Int_commute length_to_le numeral_le_iff semiring_norm(68,69,71))
  have "peek a_pa 8 m2 = Inr pa" using m2(3) by (simp add: peek_def of_le_to_le)
  then show ?thesis
    using assms(1) m1(1) m2(1) m3 loop_run [OF m3(2), of a_pa pa] m2(3) by (simp add: v2p_user_main_def)
qed

theorem v2p_user_prints_witness:
  "\<exists>m'. v2p_user_main (x86_env (\<lambda>_. 0x5001) 0) 7 3 0x1234 0x2000 2 (\<lambda>_. Some 0) =
      Inr ((Stdout ''physical address=%012llX'' [0x5234] # v2p_lines 0x1234 0x5234 2, Running), m')
    \<and> load_bytes m' 0x1234 4 = Some (to_le 4 (123 :: u32))"
proof (rule v2p_user_prints)
  show "any_v2p (x86_env (\<lambda>_. 0x5001) 0) 7 0x1234 = ([], 0x5234)"
    by (simp add: any_v2p_def x86_env_def bad_address_def frame_bits_def)
  show "span 0x1234 4 \<inter> span 0x2000 8 = {}" by (rule span_disjoint) simp_all
qed (simp_all add: dom_def)

end
