(* ===== verification/Numa_Report.thy ===== *)
theory Numa_Report
  imports Programs Clib
begin

text \<open>
  The reporting program \<open>software/driver/user.c\<close>: it asks the driver for the physical address of one
  of its variables, the board's own IPv4 address and MAC, the remote address and the bus address of
  the second window, prints each, and then prints its variable for ever.
\<close>

section \<open>The program\<close>

text \<open>The addresses of its variables; \<open>r_i\<close> is that of \<open>i\<close>.\<close>

record report_vars =
  r_pa :: u64
  r_mem0p :: u64
  r_baraddr :: u64
  r_i :: u64
  r_ipv4 :: u64
  r_mac :: u64

type_synonym 'd outcome = "kfault + (program_run \<times> 'd kstate)"

text \<open>A request that ends the program when it fails, and the two kinds of lines it prints.\<close>

definition request_or_exit ::
    "'d host \<Rightarrow> ipnuma_cmd \<Rightarrow> u64 \<Rightarrow> io_event list \<Rightarrow> 'd kstate \<Rightarrow> ('d kstate \<Rightarrow> 'd outcome) \<Rightarrow> 'd outcome" where
  "request_or_exit h c p ev s k =
     then_do (ipnuma_ioctl h (cmd_code (abi h) c) p s) (\<lambda>(z, t).
       if z < 0 then Inr ((ev @ [Stderr ''cannot IOCTL''], Exit 1), t) else k t)"

definition print_long :: "u64 \<Rightarrow> string \<Rightarrow> io_event list \<Rightarrow> 'd kstate \<Rightarrow> (io_event list \<Rightarrow> 'd outcome) \<Rightarrow> 'd outcome" where
  "print_long p fmt ev s k =
     (case load_u64 (mem_of s) p of None \<Rightarrow> Inl Bad_pointer | Some v \<Rightarrow> k (ev @ [Stdout fmt [v]]))"

definition print_bytes ::
    "u64 \<Rightarrow> nat \<Rightarrow> string \<Rightarrow> io_event list \<Rightarrow> 'd kstate \<Rightarrow> (io_event list \<Rightarrow> 'd outcome) \<Rightarrow> 'd outcome" where
  "print_bytes p n fmt ev s k =
     (case load_bytes (mem_of s) p n of None \<Rightarrow> Inl Bad_pointer | Some bs \<Rightarrow> k (ev @ [Stdout fmt (map ucast bs)]))"

text \<open>\<open>n\<close> rounds of the endless loop.\<close>

primrec report_loop :: "report_vars \<Rightarrow> nat \<Rightarrow> 'd kstate \<Rightarrow> kfault + io_event list" where
  "report_loop v 0 s = Inr []"
| "report_loop v (Suc n) s =
     (case (load_bytes (mem_of s) (r_i v) 4, load_u64 (mem_of s) (r_pa v)) of
        (Some i, Some pa) \<Rightarrow>
          then_do (report_loop v n s) (\<lambda>ev.
            Inr (Stdout ''i=%d, &i=%p, Physical Address=%012lx'' [scast (of_le i :: u32), r_i v, pa] # Usleep 10000 # ev))
      | _ \<Rightarrow> Inl Bad_pointer)"

definition report_main :: "'d host \<Rightarrow> report_vars \<Rightarrow> int \<Rightarrow> nat \<Rightarrow> 'd kstate \<Rightarrow> 'd outcome" where
  "report_main h v fd n s =
     (if fd < 0 then Inr (([Stderr ''cannot open /dev/ipnuma/0''], Exit 1), s)
      else
      then_do (set_array (r_pa v) (to_le 8 (r_i v)) s) (\<lambda>s.
      request_or_exit h GETPADDR (r_pa v) [] s (\<lambda>s.
      print_long (r_pa v) ''physical address=%012lX'' [] s (\<lambda>ev.
      request_or_exit h GETIFV4ADDR (r_ipv4 v) ev s (\<lambda>s.
      print_bytes (r_ipv4 v) 4 ''if_ipv4=%d.%d.%d.%d'' ev s (\<lambda>ev.
      request_or_exit h GETIFMACADDR (r_mac v) ev s (\<lambda>s.
      print_bytes (r_mac v) 6 ''if_mac=%02x:%02x:%02x:%02x:%02x:%02x'' ev s (\<lambda>ev.
      request_or_exit h GETMEM0PADDR (r_mem0p v) ev s (\<lambda>s.
      print_long (r_mem0p v) ''mem0paddr=%012lX'' ev s (\<lambda>ev.
      request_or_exit h GETBARADDR (r_baraddr v) ev s (\<lambda>s.
      print_long (r_baraddr v) ''baraddr=%012lX'' ev s (\<lambda>ev.
      then_do (set_array (r_i v) (to_le 4 (123 :: u32)) s) (\<lambda>s.
      then_do (report_loop v n s) (\<lambda>lines.
        Inr ((ev @ lines, Running), s)))))))))))))))"

section \<open>A run that meets no error\<close>

definition report_objects :: "report_vars \<Rightarrow> (u64 \<times> nat) list" where
  "report_objects v = [(r_pa v, 8), (r_mem0p v, 8), (r_baraddr v, 8), (r_i v, 4), (r_ipv4 v, 4), (r_mac v, 6)]"

definition report_loaded :: "report_vars \<Rightarrow> 'd kstate \<Rightarrow> bool" where
  "report_loaded v s \<longleftrightarrow> separate (report_objects v)
     \<and> (\<forall>x \<in> set (report_objects v). span (fst x) (snd x) \<subseteq> dom (mem_of s))"

lemma report_keep: "only_mem p n s s' \<Longrightarrow> report_loaded v s' = report_loaded v s"
  by (simp add: only_mem_def report_loaded_def)

lemma report_mapped:
  assumes "report_loaded v s"
  shows "span (r_pa v) 8 \<subseteq> dom (mem_of s)" "span (r_mem0p v) 8 \<subseteq> dom (mem_of s)"
    "span (r_baraddr v) 8 \<subseteq> dom (mem_of s)" "span (r_i v) 4 \<subseteq> dom (mem_of s)"
    "span (r_ipv4 v) 4 \<subseteq> dom (mem_of s)" "span (r_mac v) 6 \<subseteq> dom (mem_of s)"
  using assms by (simp_all add: report_loaded_def report_objects_def)

lemma report_apart:
  assumes "report_loaded v s"
  shows "span (r_pa v) 8 \<inter> span (r_ipv4 v) 4 = {}" "span (r_pa v) 8 \<inter> span (r_mac v) 6 = {}"
    "span (r_pa v) 8 \<inter> span (r_mem0p v) 8 = {}" "span (r_pa v) 8 \<inter> span (r_baraddr v) 8 = {}"
    "span (r_pa v) 8 \<inter> span (r_i v) 4 = {}" "span (r_mem0p v) 8 \<inter> span (r_pa v) 8 = {}"
    "span (r_mem0p v) 8 \<inter> span (r_ipv4 v) 4 = {}" "span (r_mem0p v) 8 \<inter> span (r_mac v) 6 = {}"
  using assms by (simp_all add: report_loaded_def report_objects_def Int_commute)

lemma get_run:
  assumes "ioc_encoding (abi h)" and "mmio0_ptr (drv_of s) \<noteq> 0" and "span p n \<subseteq> dom (mem_of s)"
    and "action_of c = Read_regs [(off, n)]" and "n \<le> 8"
  obtains s' where "ipnuma_ioctl h (cmd_code (abi h) c) p s = Inr (0, s')" "only_mem p n s s'"
    "load_bytes (mem_of s') p n = Some (rd_range (rd_mmio h) (dev_of s) off n)"
proof -
  obtain s' where s': "copy_out h off p n s = Inr s'" using copy_out_ok_iff [of h off p n s] assms(2,3) by blast
  then obtain m where m: "store_bytes (mem_of s) p (rd_range (rd_mmio h) (dev_of s) off n) = Some m"
    and "s' = s\<lparr>mem_of := m\<rparr>"
    by (auto simp: copy_out_def split: if_splits option.splits)
  with load_after_store [OF m] assms(5)
  have "load_bytes (mem_of s') p n = Some (rd_range (rd_mmio h) (dev_of s) off n)" by simp
  with that s' copy_out_only [OF s'] show ?thesis
    by (simp add: ioc_encoding.ioctl_performs [OF assms(1) refl] assms(4))
qed

text \<open>A double word of which only the lower half has been written.\<close>

lemma half_written:
  "load_bytes m p 4 = Some bs \<Longrightarrow> load_bytes m (p + 4) 4 = Some cs \<Longrightarrow> load_bytes m p 8 = Some (bs @ cs)"
  using load_bytes_append [of m p 4 4] by simp

text \<open>The lines before the loop.\<close>

definition report_lines :: "u64 \<Rightarrow> byte list \<Rightarrow> byte list \<Rightarrow> u64 \<Rightarrow> u64 \<Rightarrow> io_event list" where
  "report_lines pa ip mac mem0 bar =
     [Stdout ''physical address=%012lX'' [pa], Stdout ''if_ipv4=%d.%d.%d.%d'' (map ucast ip),
      Stdout ''if_mac=%02x:%02x:%02x:%02x:%02x:%02x'' (map ucast mac),
      Stdout ''mem0paddr=%012lX'' [mem0], Stdout ''baraddr=%012lX'' [bar]]"

definition loop_lines :: "u64 \<Rightarrow> u64 \<Rightarrow> nat \<Rightarrow> io_event list" where
  "loop_lines a pa n =
     concat (replicate n [Stdout ''i=%d, &i=%p, Physical Address=%012lx'' [123, a, pa], Usleep 10000])"

lemma report_loop_run:
  assumes "load_bytes (mem_of s) (r_i v) 4 = Some (to_le 4 (123 :: u32))" and "load_u64 (mem_of s) (r_pa v) = Some pa"
  shows "report_loop v n s = Inr (loop_lines (r_i v) pa n)"
  using assms by (induction n) (simp_all add: loop_lines_def of_le_to_le)

lemma answered_run:
  "ipnuma_ioctl h (cmd_code (abi h) c) p s = Inr (0, s') \<Longrightarrow> request_or_exit h c p ev s k = k s'"
  by (simp add: request_or_exit_def)

lemma print_long_run: "load_u64 (mem_of s) p = Some v \<Longrightarrow> print_long p fmt ev s k = k (ev @ [Stdout fmt [v]])"
  by (simp add: print_long_def)

lemma print_bytes_run:
  "load_bytes (mem_of s) p n = Some bs \<Longrightarrow> print_bytes p n fmt ev s k = k (ev @ [Stdout fmt (map ucast bs)])"
  by (simp add: print_bytes_def)

text \<open>
  The whole run, on any board.  \<open>junk\<close> is what the upper half of the uninitialised \<open>mem0p\<close> holds:
  GETMEM0PADDR fills the lower half only.
\<close>

lemma report_run:
  assumes enc: "ioc_encoding (abi h)" and mm: "mmio0_ptr (drv_of s) \<noteq> 0" and L: "report_loaded v s" and fd: "0 \<le> fd"
    and junk: "load_bytes (mem_of s) (r_mem0p v + 4) 4 = Some junk"
  defines "pa \<equiv> snd (any_v2p (page_tables h) (v2p_junk h) (r_i v))"
  shows "\<exists>t. report_main h v fd n s =
      Inr ((report_lines pa (rd_range (rd_mmio h) (dev_of s) 0 4) (rd_range (rd_mmio h) (dev_of s) 4 6)
              (of_le (rd_range (rd_mmio h) (dev_of s) 0x2c 4 @ junk)) (mmio1_start (drv_of s))
            @ loop_lines (r_i v) pa n, Running), t)
    \<and> drv_of t = drv_of s \<and> dev_of t = dev_of s"
proof -
  note ap = report_apart [OF L]
  obtain s1 where s1: "set_array (r_pa v) (to_le 8 (r_i v)) s = Inr s1" "only_mem (r_pa v) 8 s s1"
    "load_bytes (mem_of s1) (r_pa v) 8 = Some (to_le 8 (r_i v))"
    using set_array_run [of "r_pa v" "to_le 8 (r_i v)" s] report_mapped(1) [OF L]
    by (metis le_refl length_to_le)
  have L1: "report_loaded v s1" and mm1: "mmio0_ptr (drv_of s1) \<noteq> 0"
    using L mm report_keep [OF s1(2)] only_mem_same [OF s1(2)] by simp_all
  have "load_u64 (mem_of s1) (r_pa v) = Some (r_i v)" using s1(3) by (simp add: load_u64_def of_le_to_le)
  from getpaddr_run [OF enc this] obtain s2 where
    s2: "ipnuma_ioctl h (cmd_code (abi h) GETPADDR) (r_pa v) s1 = Inr (0, s2)" "only_mem (r_pa v) 8 s1 s2"
      "load_u64 (mem_of s2) (r_pa v) = Some pa"
    unfolding pa_def by blast
  have L2: "report_loaded v s2" and mm2: "mmio0_ptr (drv_of s2) \<noteq> 0"
    using L1 mm1 report_keep [OF s2(2)] only_mem_same [OF s2(2)] by simp_all
  obtain s3 where
    s3: "ipnuma_ioctl h (cmd_code (abi h) GETIFV4ADDR) (r_ipv4 v) s2 = Inr (0, s3)" "only_mem (r_ipv4 v) 4 s2 s3"
      "load_bytes (mem_of s3) (r_ipv4 v) 4 = Some (rd_range (rd_mmio h) (dev_of s2) 0 4)"
    using get_run [OF enc mm2 report_mapped(5) [OF L2], of GETIFV4ADDR 0] by auto
  have L3: "report_loaded v s3" and mm3: "mmio0_ptr (drv_of s3) \<noteq> 0"
    using L2 mm2 report_keep [OF s3(2)] only_mem_same [OF s3(2)] by simp_all
  obtain s4 where
    s4: "ipnuma_ioctl h (cmd_code (abi h) GETIFMACADDR) (r_mac v) s3 = Inr (0, s4)" "only_mem (r_mac v) 6 s3 s4"
      "load_bytes (mem_of s4) (r_mac v) 6 = Some (rd_range (rd_mmio h) (dev_of s3) 4 6)"
    using get_run [OF enc mm3 report_mapped(6) [OF L3], of GETIFMACADDR 4] by auto
  have L4: "report_loaded v s4" and mm4: "mmio0_ptr (drv_of s4) \<noteq> 0"
    using L3 mm3 report_keep [OF s4(2)] only_mem_same [OF s4(2)] by simp_all
  have "span (r_mem0p v) 4 \<subseteq> dom (mem_of s4)"
    using report_mapped(2) [OF L4] span_mono [of 4 8 "r_mem0p v"] by simp
  from getmem0_run [OF enc mm4 this] obtain s5 where
    s5: "ipnuma_ioctl h (cmd_code (abi h) GETMEM0PADDR) (r_mem0p v) s4 = Inr (0, s5)" "only_mem (r_mem0p v) 4 s4 s5"
    by blast
  have L5: "report_loaded v s5" using L4 report_keep [OF s5(2)] by simp
  obtain s6 where
    s6: "ipnuma_ioctl h (cmd_code (abi h) GETBARADDR) (r_baraddr v) s5 = Inr (0, s6)" "only_mem (r_baraddr v) 8 s5 s6"
      "load_u64 (mem_of s6) (r_baraddr v) = Some (mmio1_start (drv_of s5))"
    using getbaraddr_run [OF enc report_mapped(3) [OF L5]] by blast
  have L6: "report_loaded v s6" using L5 report_keep [OF s6(2)] by simp
  obtain s7 where
    s7: "set_array (r_i v) (to_le 4 (123 :: u32)) s6 = Inr s7" "only_mem (r_i v) 4 s6 s7"
      "load_bytes (mem_of s7) (r_i v) 4 = Some (to_le 4 (123 :: u32))"
    using set_array_run [of "r_i v" "to_le 4 (123 :: u32)" s6] report_mapped(4) [OF L6] by auto
  note same = only_mem_same [OF s1(2)] only_mem_same [OF s2(2)] only_mem_same [OF s3(2)] only_mem_same [OF s4(2)]
    only_mem_same [OF s5(2)] only_mem_same [OF s6(2)] only_mem_same [OF s7(2)]
  have upper: "span (r_mem0p v + 4) 4 \<subseteq> span (r_mem0p v) 8"
    by (rule span_tail)
  have "load_bytes (mem_of s4) (r_mem0p v + 4) 4 = Some junk"
  proof -
    have "span (r_mem0p v + 4) 4 \<inter> span (r_pa v) 8 = {}" "span (r_mem0p v + 4) 4 \<inter> span (r_ipv4 v) 4 = {}"
      "span (r_mem0p v + 4) 4 \<inter> span (r_mac v) 6 = {}"
      using upper ap(6-8) by blast+
    then show ?thesis
      using junk only_mem_load [OF s1(2)] only_mem_load [OF s2(2)] only_mem_load [OF s3(2)] only_mem_load [OF s4(2)]
      by simp
  qed
  then have "load_bytes (mem_of s5) (r_mem0p v) 8 = Some (rd_range (rd_mmio h) (dev_of s4) 0x2c 4 @ junk)"
    using get_mem0_bytes [OF enc s5(1)] half_written by metis
  then have mem0: "load_u64 (mem_of s5) (r_mem0p v) = Some (of_le (rd_range (rd_mmio h) (dev_of s4) 0x2c 4 @ junk))"
    by (simp add: load_u64_def)
  have "span (r_pa v) 8 \<inter> span (r_mem0p v) 4 = {}" using ap(3) span_mono [of 4 8 "r_mem0p v"] by auto
  then have "load_u64 (mem_of s7) (r_pa v) = Some pa"
    using s2(3) ap u64_keep [OF s3(2)] u64_keep [OF s4(2)] u64_keep [OF s5(2)] u64_keep [OF s6(2)] u64_keep [OF s7(2)]
    by simp
  from report_loop_run [OF s7(3) this]
  have "report_main h v fd n s =
      Inr ((report_lines pa (rd_range (rd_mmio h) (dev_of s) 0 4) (rd_range (rd_mmio h) (dev_of s) 4 6)
              (of_le (rd_range (rd_mmio h) (dev_of s) 0x2c 4 @ junk)) (mmio1_start (drv_of s))
            @ loop_lines (r_i v) pa n, Running), s7)"
    using fd same
    by (simp add: report_main_def s1(1) answered_run [OF s2(1)] print_long_run [OF s2(3)] answered_run [OF s3(1)]
        print_bytes_run [OF s3(3)] answered_run [OF s4(1)] print_bytes_run [OF s4(3)] answered_run [OF s5(1)]
        print_long_run [OF mem0] answered_run [OF s6(1)] print_long_run [OF s6(3)] s7(1) report_lines_def)
  then show ?thesis using same by auto
qed

section \<open>On the ECP3 board\<close>

text \<open>A register as it travels: most significant byte first.\<close>

definition to_be :: "nat \<Rightarrow> 'a::len word \<Rightarrow> byte list" where
  "to_be n w = rev (to_le n w)"

lemma ecp3_reads:
  "rd_range ecp3_rd r 0 4 = to_be 4 (if_v4addr r)"
  "rd_range ecp3_rd r 4 6 = to_be 6 (if_macaddr r)"
  "rd_range ecp3_rd r 0x2c 4 = to_le 2 (get_bits 47 32 (mem0_paddr r) :: u16) @ [0, 0]"
proof -
  have byte: "byte_at i w = get_bits (8 * i + 7) (8 * i) w" for i and w :: "'c::len word"
    by (rule bit_eqI) (auto simp: bit_get bit_byte_at)
  note [simp] = rd_range_def ecp3_rd_def ecp3_read_def upt_conv_Cons to_le_def byte reg_simps
  show "rd_range ecp3_rd r 0 4 = to_be 4 (if_v4addr r)" by (simp add: to_be_def)
  show "rd_range ecp3_rd r 4 6 = to_be 6 (if_macaddr r)" by (simp add: to_be_def)
  show "rd_range ecp3_rd r 0x2c 4 = to_le 2 (get_bits 47 32 (mem0_paddr r) :: u16) @ [0, 0]" by simp
qed

text \<open>
  Property C28: on the ECP3 board the program prints its variable's physical address, the board's
  IPv4 address and MAC in network order and the bus address of BAR 2; as the remote address it
  prints bits 47 to 32 of the register, under four bytes that nothing has initialised.
\<close>

theorem ecp3_report:
  assumes "ioc_encoding (abi h)" and "rd_mmio h = ecp3_rd" and "mmio0_ptr (drv_of s) \<noteq> 0" and "0 \<le> fd"
    and "report_loaded v s" and "any_v2p (page_tables h) (v2p_junk h) (r_i v) = ([], pa)"
    and "load_bytes (mem_of s) (r_mem0p v + 4) 4 = Some junk"
  shows "\<exists>t. report_main h v fd n s =
      Inr ((report_lines pa (to_be 4 (if_v4addr (dev_of s))) (to_be 6 (if_macaddr (dev_of s)))
              (of_le (to_le 2 (get_bits 47 32 (mem0_paddr (dev_of s)) :: u16) @ [0, 0] @ junk))
              (mmio1_start (drv_of s))
            @ loop_lines (r_i v) pa n, Running), t)
    \<and> dev_of t = dev_of s"
  using report_run [OF assms(1,3,5,4,7), of n] assms(2,6) by (simp add: ecp3_reads) blast

definition example_report :: report_vars where
  "example_report = \<lparr>r_pa = 0x1000, r_mem0p = 0x1010, r_baraddr = 0x1020, r_i = 0x1030, r_ipv4 = 0x1040, r_mac = 0x1050\<rparr>"

lemma example_report_loaded: "report_loaded example_report example_state"
  by (simp add: report_loaded_def report_objects_def example_report_def span_disjoint)

theorem ecp3_report_witness:
  "\<exists>t. report_main ((example_host ecp3_rd ecp3_wr)\<lparr>page_tables := x86_env (\<lambda>_. 0x5001) 0\<rparr>) example_report 3 1
      (example_state\<lparr>dev_of := example_regs\<lparr>if_v4addr := 0xC0A80101\<rparr>\<rparr>) =
      Inr ((report_lines 0x5030 [0xC0, 0xA8, 1, 1] [0, 0, 0, 0, 0, 0] (of_le [0, 0, 0, 0, 0x14, 0x15, 0x16, 0x17])
              0xEC000000 @ loop_lines 0x1030 0x5030 1, Running), t)"
proof -
  let ?h = "(example_host ecp3_rd ecp3_wr)\<lparr>page_tables := x86_env (\<lambda>_. 0x5001) 0\<rparr>"
  let ?s = "example_state\<lparr>dev_of := example_regs\<lparr>if_v4addr := 0xC0A80101\<rparr>\<rparr>"
  have vars: "r_i example_report = 0x1030" "r_mem0p example_report = 0x1010" by (simp_all add: example_report_def)
  have walk: "any_v2p (page_tables ?h) (v2p_junk ?h) (r_i example_report) = ([], 0x5030)"
    by (simp add: any_v2p_def x86_env_def bad_address_def frame_bits_def vars)
  have junk: "load_bytes (mem_of ?s) (r_mem0p example_report + 4) 4 = Some [0x14, 0x15, 0x16, 0x17]"
    by (simp add: vars load_simps)
  have loaded: "report_loaded example_report ?s"
    using example_report_loaded by (simp add: report_loaded_def)
  have ip: "to_be 4 (if_v4addr (dev_of ?s)) = [0xC0, 0xA8, 1, 1]" by (simp add: to_be_def load_simps)
  have mac: "to_be 6 (if_macaddr (dev_of ?s)) = [0, 0, 0, 0, 0, 0]"
    by (simp add: to_be_def load_simps example_regs_def)
  have mem0: "to_le 2 (get_bits 47 32 (mem0_paddr (dev_of ?s)) :: u16) = [0, 0]"
    by (simp add: load_simps example_regs_def reg_simps)
  show ?thesis
    using ecp3_report [OF _ _ _ _ loaded walk junk, of 3 1] ip mac mem0 vars by auto
qed

end
