(* ===== verification/Mem_Tests.thy ===== *)
theory Mem_Tests
  imports Clib
begin

text \<open>
  The programs of \<open>software/kc705_test\<close> that map a window of physical memory through \<open>/dev/mem\<close>
  and store to it: \<open>mem.c\<close> writes a pattern, \<open>demo1.c\<close> plays an animation on a text screen, and
  \<open>user.c\<close> polls a word.  What \<open>open\<close> and \<open>mmap\<close> return is a parameter; the window is part of the
  byte memory, from the address \<open>mmap\<close> returned.
\<close>

section \<open>Mapping a window\<close>

text \<open>\<open>poff = st % 4096\<close>: offset and length of the mapping, in 32 bits.\<close>

definition dev_window :: "u32 \<Rightarrow> u32 \<Rightarrow> u32 \<times> u32" where
  "dev_window st len = (let poff = st mod 4096 in (st - poff, len + poff))"

record mem_world =
  open_ret :: int
  mmap_ret :: "u64 option"  \<comment> \<open>\<open>None\<close> is \<open>MAP_FAILED\<close>\<close>

text \<open>What the programs do before they use the window; \<open>run\<close> is \<open>None\<close> when a store faults.\<close>

definition with_window ::
    "mem_world \<Rightarrow> u32 \<Rightarrow> u32 \<Rightarrow> (u64 \<Rightarrow> (program_run \<times> memory) option) \<Rightarrow> memory \<Rightarrow> (program_run \<times> memory) option" where
  "with_window w st len run m =
     (if open_ret w < 0 then Some (([Stderr ''cannot open /dev/mem''], Exit 1), m)
      else
      let (off, size) = dev_window st len;
          ev = [Stdout ''mmap: start %08X len:%08X Total=%dMB'' [ucast off, ucast size, ucast (len div 1000)]] in
      case mmap_ret w of
        None \<Rightarrow> Some ((ev @ [Stderr ''cannot mmap''], Exit 1), m)
      | Some mmapped \<Rightarrow> map_option (\<lambda>((ev', e), m'). ((ev @ ev', e), m')) (run mmapped))"

text \<open>\<open>*(int *)(mmapped + off) = v\<close>\<close>

definition store_int :: "u64 \<Rightarrow> nat \<Rightarrow> u32 \<Rightarrow> memory \<Rightarrow> memory option" where
  "store_int base off v m = store_bytes m (base + of_nat off) (to_le 4 v)"

section \<open>\<open>mem.c\<close>\<close>

text \<open>\<open>for (i=0x40; i<=0xff; i+=4) *(int *)(mmapped + i) = i<<8 | i\<close>\<close>

function mem_fill :: "u64 \<Rightarrow> nat \<Rightarrow> memory \<Rightarrow> memory option" where
  "mem_fill base i m =
     (if i \<le> 0xff
      then case store_int base i (push_bit 8 (of_nat i) OR of_nat i) m of
             None \<Rightarrow> None
           | Some m' \<Rightarrow> mem_fill base (i + 4) m'
      else Some m)"
  by auto
termination
  by (relation "measure (\<lambda>(base, i, m). 0x100 - i)") auto

declare mem_fill.simps [simp del]

definition mem_main :: "mem_world \<Rightarrow> memory \<Rightarrow> (program_run \<times> memory) option" where
  "mem_main w m = with_window w 0x80000000 0x1000
     (\<lambda>mmapped. map_option (\<lambda>m'. (([], Exit 0), m')) (mem_fill mmapped 0x40 m)) m"

section \<open>\<open>demo1.c\<close>\<close>

text \<open>\<open>n\<close> rounds of a loop \<open>*(int *)(mmapped + i*8) = f i\<close>.\<close>

primrec fill_cells :: "(nat \<Rightarrow> u32) \<Rightarrow> u64 \<Rightarrow> nat \<Rightarrow> memory \<Rightarrow> memory option" where
  "fill_cells f base 0 m = Some m"
| "fill_cells f base (Suc i) m =
     (case fill_cells f base i m of None \<Rightarrow> None | Some m' \<Rightarrow> store_int base (i * 8) (f i) m')"

definition demo_cell :: "nat \<Rightarrow> nat \<Rightarrow> u32" where
  "demo_cell j i = push_bit 8 (of_nat ((i + j) mod 14 + 1)) OR (of_nat (i + j) AND 0xff)"

text \<open>The first \<open>n\<close> frames, each followed by \<open>usleep(10000)\<close>.\<close>

primrec demo_frames :: "u64 \<Rightarrow> nat \<Rightarrow> memory \<Rightarrow> memory option" where
  "demo_frames base 0 m = Some m"
| "demo_frames base (Suc j) m =
     (case demo_frames base j m of None \<Rightarrow> None | Some m' \<Rightarrow> fill_cells (demo_cell j) base (80 * 5) m')"

definition demo1_main :: "mem_world \<Rightarrow> memory \<Rightarrow> (program_run \<times> memory) option" where
  "demo1_main w m = with_window w 0x80000000 0x1000
     (\<lambda>mmapped. case demo_frames mmapped 1001 m of
        None \<Rightarrow> None
      | Some m1 \<Rightarrow>
          map_option (\<lambda>m2. ((replicate 1001 (Usleep 10000), Exit 0), m2)) (fill_cells (\<lambda>i. 0x0720) mmapped (80 * 5) m1)) m"

section \<open>\<open>user.c\<close>\<close>

text \<open>The endless loop; \<open>ms\<close> is what memory holds at each round, since the network writes to it.\<close>

fun poll_loop :: "u64 \<Rightarrow> memory list \<Rightarrow> io_event list option" where
  "poll_loop p [] = Some []"
| "poll_loop p (m # ms) =
     (case load_bytes m p 4 of
        None \<Rightarrow> None
      | Some bs \<Rightarrow>
          map_option (\<lambda>ev. Stdout ''i=%d'' [scast (of_le bs :: u32)] # Usleep 10000 # ev) (poll_loop p ms))"

definition poll_main :: "mem_world \<Rightarrow> memory list \<Rightarrow> memory \<Rightarrow> (program_run \<times> memory) option" where
  "poll_main w ms m = with_window w 0xd0000000 0x100
     (\<lambda>mmapped. map_option (\<lambda>ev. ((ev, Running), m)) (poll_loop mmapped ms)) m"

section \<open>What the stores leave\<close>

text \<open>Memory with one integer written.\<close>

definition with_int :: "u64 \<Rightarrow> nat \<Rightarrow> u32 \<Rightarrow> memory \<Rightarrow> memory" where
  "with_int base off v m x =
     (let k = unat (x - base) in if off \<le> k \<and> k < off + 4 then Some (byte_at (k - off) v) else m x)"

lemma store_int_run:
  assumes "span base n \<subseteq> dom m" and "off + 4 \<le> n" and "n < 2 ^ 32"
  shows "store_int base off v m = Some (with_int base off v m)"
proof -
  have k: "unat (x - (base + of_nat off)) < 4 \<longleftrightarrow> off \<le> unat (x - base) \<and> unat (x - base) < off + 4" for x
  proof -
    have o: "unat (of_nat off :: u64) = off" using assms by (simp add: unat_of_nat take_bit_nat_eq_self)
    have "unat (d - of_nat off) = (if off \<le> unat d then unat d - off else unat d + 2 ^ 64 - off)" for d :: u64
      unfolding unat_sub_if' o by simp
    from this [of "x - base"]
    have "unat (x - (base + of_nat off)) =
        (if off \<le> unat (x - base) then unat (x - base) - off else unat (x - base) + 2 ^ 64 - off)"
      by (simp only: diff_diff_eq)
    moreover have "off < 2 ^ 32" using assms by simp
    ultimately show ?thesis by auto
  qed
  have sub: "span (base + of_nat off) 4 \<subseteq> span base n"
    using k assms by (auto simp: in_span_iff)
  with assms(1) obtain m' where m': "store_bytes m (base + of_nat off) (to_le 4 v) = Some m'"
    using store_bytes_iff [of m "base + of_nat off" "to_le 4 v"] by auto
  have "m' x = with_int base off v m x" for x
  proof (cases "off \<le> unat (x - base) \<and> unat (x - base) < off + 4")
    case False
    then have "x \<notin> span (base + of_nat off) 4" using k by (simp add: in_span_iff)
    then have "m' x = m x" using store_bytes_frame [OF m'] by simp
    with False show ?thesis by (auto simp: with_int_def Let_def)
  next
    case True
    define i where "i = unat (x - base) - off"
    have i4: "i < 4" and off_i: "off + i = unat (x - base)" using True by (simp_all only: i_def) linarith+
    have "of_nat (off + i) = x - base" unfolding off_i by simp
    then have x: "x = base + of_nat off + of_nat i" by (simp add: algebra_simps)
    have "load_bytes m' (base + of_nat off) 4 = Some (to_le 4 v)" using load_after_store [OF m'] by simp
    from load_bytes_nth [OF this i4] have "m' x = Some (byte_at i v)" using i4 by (simp add: x)
    with True show ?thesis by (simp only: with_int_def Let_def i_def if_True simp_thms)
  qed
  then show ?thesis using m' by (simp add: store_int_def fun_eq_iff)
qed

lemma with_int_dom: "span base n \<subseteq> dom m \<Longrightarrow> span base n \<subseteq> dom (with_int base off v m)"
  by (auto simp: with_int_def Let_def)

section \<open>What the programs leave\<close>

definition mem_word :: "nat \<Rightarrow> u32" where
  "mem_word i = push_bit 8 (of_nat i) OR of_nat i"

lemma mem_word_bytes:
  assumes "i < 256" and "b < 4"
  shows "byte_at b (mem_word i) = (if b < 2 then of_nat i else 0)"
proof (rule bit_eqI)
  fix n
  assume "possible_bit TYPE(8 word) n"
  then have n: "n < 8" by simp
  have small: "bit i k \<longleftrightarrow> False" if "8 \<le> k" for k
  proof -
    have "take_bit 8 i = i" using assms(1) by (simp add: take_bit_nat_eq_self)
    with that show ?thesis by (metis bit_take_bit_iff not_le)
  qed
  from assms(2) consider "b = 0" | "b = 1" | "b = 2" | "b = 3" by linarith
  then show "bit (byte_at b (mem_word i)) n = bit (if b < 2 then of_nat i else 0 :: byte) n"
    using n by cases (auto simp: mem_word_def bit_byte_at bit_or_iff bit_push_bit_iff bit_of_nat_iff small)
qed

text \<open>Memory after the pattern has been written from offset \<open>i\<close> on.\<close>

definition mem_image :: "u64 \<Rightarrow> nat \<Rightarrow> memory \<Rightarrow> memory" where
  "mem_image base i m x =
     (let k = unat (x - base) in
      if i \<le> k \<and> k < 0x100 then Some (if k mod 4 < 2 then of_nat (k - k mod 4) else 0) else m x)"

lemma mem_image_step:
  assumes "i \<le> 0xff" and "i mod 4 = 0"
  shows "mem_image base (i + 4) (with_int base i (mem_word i) m) = mem_image base i m"
proof
  fix x
  define k where "k = unat (x - base)"
  show "mem_image base (i + 4) (with_int base i (mem_word i) m) x = mem_image base i m x"
  proof (cases "i \<le> k \<and> k < i + 4")
    case True
    then obtain b where b: "k = i + b" "b < 4" by (metis add_less_cancel_left le_Suc_ex)
    then have "k mod 4 = b" using assms(2) by presburger
    moreover have "k < 0x100" using b assms by presburger
    ultimately show ?thesis
      using b assms mem_word_bytes [of i b]
      by (simp add: mem_image_def with_int_def Let_def k_def [symmetric])
  next
    case False
    then show ?thesis by (auto simp: mem_image_def with_int_def Let_def k_def [symmetric])
  qed
qed

lemma mem_fill_run:
  "span base 0x1000 \<subseteq> dom m \<Longrightarrow> i mod 4 = 0 \<Longrightarrow> i \<le> 0x100 \<Longrightarrow> mem_fill base i m = Some (mem_image base i m)"
proof (induction base i m rule: mem_fill.induct)
  case (1 base i m)
  show ?case
  proof (cases "i \<le> 0xff")
    case True
    have st: "store_int base i (push_bit 8 (of_nat i) OR of_nat i) m = Some (with_int base i (mem_word i) m)"
      using store_int_run [OF "1.prems"(1), of i] True by (simp add: mem_word_def)
    have "i + 4 \<le> 0x100" "(i + 4) mod 4 = 0" using True "1.prems"(2) by presburger+
    with "1.IH" [OF True st with_int_dom [OF "1.prems"(1)]]
    have "mem_fill base (i + 4) (with_int base i (mem_word i) m)
        = Some (mem_image base (i + 4) (with_int base i (mem_word i) m))" by simp
    with st True mem_image_step [OF True "1.prems"(2)] show ?thesis
      by (subst mem_fill.simps) simp
  next
    case False
    with "1.prems"(3) have "i = 0x100" by simp
    then show ?thesis by (subst mem_fill.simps) (auto simp: mem_image_def fun_eq_iff Let_def)
  qed
qed

text \<open>Memory with the low half of \<open>n\<close> double words replaced.\<close>

definition cells_image :: "(nat \<Rightarrow> u32) \<Rightarrow> u64 \<Rightarrow> nat \<Rightarrow> memory \<Rightarrow> memory" where
  "cells_image f base n m x =
     (let k = unat (x - base) in
      if k < 8 * n \<and> k mod 8 < 4 then Some (byte_at (k mod 8) (f (k div 8))) else m x)"

lemma cells_image_Suc: "with_int base (n * 8) (f n) (cells_image f base n m) = cells_image f base (Suc n) m"
proof
  fix x
  define k where "k = unat (x - base)"
  show "with_int base (n * 8) (f n) (cells_image f base n m) x = cells_image f base (Suc n) m x"
  proof (cases "n * 8 \<le> k \<and> k < n * 8 + 4")
    case True
    then obtain b where b: "k = n * 8 + b" "b < 4" by (metis add_less_cancel_left le_Suc_ex)
    then show ?thesis by (simp add: cells_image_def with_int_def Let_def k_def [symmetric])
  next
    case False
    define q r where "q = k div 8" and "r = k mod 8"
    then have k: "k = 8 * q + r" by simp
    have "(8 * q + r < 8 * Suc n \<and> r < 4) = (8 * q + r < 8 * n \<and> r < 4)" using False unfolding k by arith
    then have same: "(k < 8 * Suc n \<and> k mod 8 < 4) = (k < 8 * n \<and> k mod 8 < 4)" unfolding k [symmetric] unfolding r_def .
    show ?thesis
      by (simp only: cells_image_def with_int_def Let_def k_def [symmetric] False same if_False)
  qed
qed

lemma cells_image_dom: "span base N \<subseteq> dom m \<Longrightarrow> span base N \<subseteq> dom (cells_image f base n m)"
  by (auto simp: cells_image_def Let_def)

lemma cells_image_again: "cells_image g base n (cells_image f base n m) = cells_image g base n m"
  by (simp add: cells_image_def fun_eq_iff Let_def)

lemma fill_cells_run:
  "span base 0x1000 \<subseteq> dom m \<Longrightarrow> n \<le> 512 \<Longrightarrow> fill_cells f base n m = Some (cells_image f base n m)"
proof (induction n)
  case 0
  then show ?case by (simp add: cells_image_def fun_eq_iff Let_def)
next
  case (Suc n)
  have "store_int base (n * 8) (f n) (cells_image f base n m)
      = Some (with_int base (n * 8) (f n) (cells_image f base n m))"
  proof (rule store_int_run [OF cells_image_dom [OF Suc.prems(1)]])
    show "n * 8 + 4 \<le> 0x1000" using Suc.prems(2) by linarith
  qed simp
  with Suc show ?case by (simp add: cells_image_Suc)
qed

lemma demo_frames_run:
  assumes "span base 0x1000 \<subseteq> dom m"
  shows "demo_frames base (Suc j) m = Some (cells_image (demo_cell j) base 400 m)"
proof (induction j)
  case 0
  show ?case using fill_cells_run [OF assms, of 400] by simp
next
  case (Suc j)
  have "demo_frames base (Suc (Suc j)) m =
      fill_cells (demo_cell (Suc j)) base 400 (cells_image (demo_cell j) base 400 m)"
    using Suc by simp
  also have "\<dots> = Some (cells_image (demo_cell (Suc j)) base 400 m)"
    using fill_cells_run [OF cells_image_dom [OF assms], of 400] by (simp add: cells_image_again)
  finally show ?case .
qed

lemma demo_cell_bytes:
  "byte_at 0 (demo_cell j i) = of_nat (i + j)" "byte_at 1 (demo_cell j i) = of_nat ((i + j) mod 14 + 1)"
proof -
  define a where "a = (i + j) mod 14 + 1"
  have "a < 16" by (simp add: a_def less_Suc_eq_le [symmetric] order_less_trans [OF mod_less_divisor])
  then have a: "take_bit 4 a = a" by (simp add: take_bit_nat_eq_self)
  have high: "bit a k \<longleftrightarrow> False" if "4 \<le> k" for k
    using that a by (metis bit_take_bit_iff not_le)
  have mask: "(0xff :: u32) = mask 8" by (simp add: mask_eq_exp_minus_1)
  show "byte_at 0 (demo_cell j i) = of_nat (i + j)"
    unfolding demo_cell_def by (rule bit_eqI) (auto simp: bit_byte_at mask bit_simps simp del: of_nat_add)
  show "byte_at 1 (demo_cell j i) = of_nat ((i + j) mod 14 + 1)"
    unfolding demo_cell_def a_def [symmetric]
    by (rule bit_eqI) (auto simp: bit_byte_at mask bit_simps high)
qed

section \<open>Properties\<close>

lemma window_run:
  assumes "0 \<le> open_ret w" and "mmap_ret w = Some base"
  shows "with_window w 0x80000000 0x1000 run m =
    map_option (\<lambda>((ev', e), m'). ((Stdout ''mmap: start %08X len:%08X Total=%dMB'' [0x80000000, 0x1000, 4] # ev', e), m'))
      (run base)"
  using assms by (simp add: with_window_def dev_window_def Let_def)

text \<open>
  Property C39: \<open>mem.c\<close> ends with status 0, every store falls into its window, and afterwards each
  double word from offset 0x40 to 0xfc holds its offset in its two low bytes and zeros above; no
  other byte has changed.
\<close>

theorem mem_pattern:
  assumes "0 \<le> open_ret w" and "mmap_ret w = Some base" and "span base 0x1000 \<subseteq> dom m"
  shows "\<exists>ev m'. mem_main w m = Some ((ev, Exit 0), m')
    \<and> (\<forall>x. m' x = (let k = unat (x - base) in
        if 0x40 \<le> k \<and> k < 0x100 then Some (if k mod 4 < 2 then of_nat (k - k mod 4) else 0) else m x))"
  using mem_fill_run [OF assms(3), of "0x40"] window_run [OF assms(1,2)]
  by (simp add: mem_main_def mem_image_def)

theorem mem_pattern_witness:
  "\<exists>ev m'. mem_main \<lparr>open_ret = 3, mmap_ret = Some 0x7f0000000000\<rparr> (\<lambda>_. Some 0xee) = Some ((ev, Exit 0), m')
    \<and> m' 0x7f0000000044 = Some 0x44 \<and> m' 0x7f0000000046 = Some 0 \<and> m' 0x7f0000000100 = Some 0xee"
proof -
  have dom: "span (0x7f0000000000 :: u64) 0x1000 \<subseteq> dom (\<lambda>_. Some (0xee :: byte))" by auto
  obtain ev m' where run: "mem_main \<lparr>open_ret = 3, mmap_ret = Some 0x7f0000000000\<rparr> (\<lambda>_. Some 0xee) = Some ((ev, Exit 0), m')"
    and img: "\<forall>x. m' x = (let k = unat (x - 0x7f0000000000) in
        if 0x40 \<le> k \<and> k < 0x100 then Some (if k mod 4 < 2 then of_nat (k - k mod 4) else 0) else Some 0xee)"
    using mem_pattern [OF _ _ dom, of "\<lparr>open_ret = 3, mmap_ret = Some 0x7f0000000000\<rparr>"] by auto
  show ?thesis
    using run img [rule_format, of "0x7f0000000044"] img [rule_format, of "0x7f0000000046"]
      img [rule_format, of "0x7f0000000100"] by (simp add: Let_def)
qed

text \<open>
  Property C40: frame \<open>j\<close> of \<open>demo1.c\<close> shows in every cell \<open>i\<close> of the screen the character
  \<open>i + j\<close> in a colour from 1 to 14, and the program ends with status 0 and a blank screen; every
  store falls into its window and no byte outside the cells changes.
\<close>

theorem demo1_frames:
  assumes "0 \<le> open_ret w" and "mmap_ret w = Some base" and "span base 0x1000 \<subseteq> dom m"
  shows "demo_frames base (Suc j) m = Some (cells_image (demo_cell j) base 400 m)
    \<and> byte_at 0 (demo_cell j i) = of_nat (i + j)
    \<and> (\<exists>c \<in> {1..14}. byte_at 1 (demo_cell j i) = of_nat c)
    \<and> (\<exists>ev. demo1_main w m = Some ((ev, Exit 0), cells_image (\<lambda>_. 0x0720) base 400 m))"
proof (intro conjI)
  have "(i + j) mod 14 + 1 \<in> {1..14}" by (simp add: less_Suc_eq_le [symmetric])
  then show "\<exists>c \<in> {1..14}. byte_at 1 (demo_cell j i) = of_nat c" using demo_cell_bytes(2) by blast
  have "demo_frames base 1001 m = Some (cells_image (demo_cell 1000) base 400 m)"
    using demo_frames_run [OF assms(3), of 1000] by (simp del: demo_frames.simps)
  then show "\<exists>ev. demo1_main w m = Some ((ev, Exit 0), cells_image (\<lambda>_. 0x0720) base 400 m)"
    using window_run [OF assms(1,2)] fill_cells_run [OF cells_image_dom [OF assms(3)], of 400]
    by (simp add: demo1_main_def cells_image_again del: demo_frames.simps)
qed (use demo_frames_run [OF assms(3)] demo_cell_bytes in \<open>simp_all del: demo_frames.simps\<close>)

theorem demo1_frames_witness:
  "\<exists>ev m'. demo1_main \<lparr>open_ret = 3, mmap_ret = Some 0x7f0000000000\<rparr> (\<lambda>_. Some 0xee) = Some ((ev, Exit 0), m')
    \<and> m' 0x7f0000000008 = Some 0x20 \<and> m' 0x7f0000000009 = Some 0x07 \<and> m' 0x7f000000000c = Some 0xee"
proof -
  have dom: "span (0x7f0000000000 :: u64) 0x1000 \<subseteq> dom (\<lambda>_. Some (0xee :: byte))" by auto
  show ?thesis
    using demo1_frames [OF _ _ dom, of "\<lparr>open_ret = 3, mmap_ret = Some 0x7f0000000000\<rparr>" 0 0]
    by (auto simp: cells_image_def Let_def byte_at_def)
qed

end
