(* ===== verification/Rmem.thy ===== *)
theory Rmem
  imports Numa_Report Mem_Tests
begin

text \<open>
  The remote-memory program \<open>software/kc705_test/rmem.c\<close>: it reads the board's address registers
  from the driver, maps the start of the second window, sets the board's IPv4 address register to
  the bytes of \<open>0xd0000000\<close> and then stores every number the user types at the start of the window.
\<close>

section \<open>The program\<close>

text \<open>The addresses of \<open>mmuaddr\<close>, \<open>baraddr\<close> and \<open>i\<close>.\<close>

record rmem_vars =
  m_mmu :: u64
  m_bar :: u64
  m_i :: u64

definition htonl :: "u32 \<Rightarrow> u32" where
  "htonl w = of_le (to_be 4 w)"

definition rmem_init :: "'d host \<Rightarrow> rmem_vars \<Rightarrow> int \<Rightarrow> 'd kstate \<Rightarrow> kfault + (int \<times> 'd kstate)" where
  "rmem_init h v numa_fd s =
     (if numa_fd < 0 then Inr (1, s)
      else
      ioctl_or_1 h numa_fd GETIFV4ADDR (m_mmu v) (\<lambda>s.
      case load_u64 (mem_of s) (m_mmu v) of None \<Rightarrow> Inl Bad_pointer | Some mmuaddr \<Rightarrow>
      then_do (set_array (m_mmu v) (to_le 8 (ucast (htonl (ucast mmuaddr)) :: u64)) s) (
      ioctl_or_1 h numa_fd GETBARADDR (m_bar v) (\<lambda>s. Inr (0, s)))) s)"

text \<open>
  The endless loop, for a list of inputs: what \<open>scanf("%d")\<close> reads, or \<open>None\<close> when it reads no
  number.  It stores into the lower half of the 64-bit \<open>sdata\<close>.
\<close>

primrec rmem_loop :: "u64 \<Rightarrow> u32 option list \<Rightarrow> u64 \<Rightarrow> 'd kstate \<Rightarrow> kfault + (io_event list \<times> 'd kstate)" where
  "rmem_loop mmapped [] sdata s = Inr ([], s)"
| "rmem_loop mmapped (x # xs) sdata s =
     (let sdata = (case x of None \<Rightarrow> sdata | Some d \<Rightarrow> put_bits 31 0 d sdata) in
      then_do (set_array mmapped (to_le 4 (ucast sdata :: u32)) s) (\<lambda>s.
      then_do (rmem_loop mmapped xs sdata s) (\<lambda>(ev, s). Inr (Stdout ''data?'' [] # ev, s))))"

definition rmem_main ::
    "'d host \<Rightarrow> rmem_vars \<Rightarrow> int \<Rightarrow> int \<Rightarrow> (u32 \<Rightarrow> u32 \<Rightarrow> u64 option) \<Rightarrow> u32 option list \<Rightarrow> 'd kstate \<Rightarrow> 'd outcome" where
  "rmem_main h v numa_fd mem_fd mmap inputs s =
     then_do (rmem_init h v numa_fd s) (\<lambda>r.
     case (load_u64 (mem_of (snd r)) (m_bar v), load_u64 (mem_of (snd r)) (m_mmu v)) of
       (Some baraddr, Some mmuaddr) \<Rightarrow>
         (let s = snd r;
              ev = [Stdout ''baraddr=%x,mmuaddr=%x'' [baraddr AND 0xffffffff, mmuaddr AND 0xffffffff]];
              (off, len) = dev_window (ucast baraddr) 0x100 in
          if mem_fd < 0 then Inr ((ev @ [Stderr ''cannot open /dev/mem''], Exit 1), s)
          else case mmap off len of
            None \<Rightarrow> Inr ((ev @ [Stderr ''cannot mmap''], Exit 1), s)
          | Some mmapped \<Rightarrow>
              then_do (set_array (m_i v) (to_le 4 (htonl 0xd0000000)) s) (\<lambda>s.
              then_do (ioctl_or_1 h numa_fd SETIFV4ADDR (m_i v) (\<lambda>s. Inr (0, s)) s) (\<lambda>r.
              if fst r \<noteq> 0 then Inr ((ev @ [Stderr ''cannot IOCTL''], Exit 1), snd r)
              else then_do (rmem_loop mmapped inputs 0 (snd r)) (\<lambda>(ev', s). Inr ((ev @ ev', Running), s)))))
     | _ \<Rightarrow> Inl Bad_pointer)"

section \<open>A run that meets no error\<close>

definition rmem_loaded :: "rmem_vars \<Rightarrow> 'd kstate \<Rightarrow> bool" where
  "rmem_loaded v s \<longleftrightarrow> separate [(m_mmu v, 8), (m_bar v, 8), (m_i v, 4)]
     \<and> span (m_mmu v) 8 \<subseteq> dom (mem_of s) \<and> span (m_bar v) 8 \<subseteq> dom (mem_of s) \<and> span (m_i v) 4 \<subseteq> dom (mem_of s)"

lemma rmem_keep: "only_mem p n s s' \<Longrightarrow> rmem_loaded v s' = rmem_loaded v s"
  by (simp add: only_mem_def rmem_loaded_def)

lemma htonl_bytes: "to_le 4 (htonl w) = to_be 4 w"
  using to_le_of_le [of "to_be 4 w", where ?'a = 32] by (simp add: htonl_def to_be_def)

lemma htonl_be: "htonl (of_le (to_be 4 w)) = w"
proof -
  have "to_be 4 (of_le (to_be 4 w) :: u32) = to_le 4 w"
    using to_le_of_le [of "to_be 4 w", where ?'a = 32] by (simp add: to_be_def)
  then show ?thesis by (simp add: htonl_def of_le_to_le)
qed

lemma low_cast:
  assumes "length bs = 4"
  shows "ucast (of_le (bs @ cs) :: u64) = (of_le bs :: u32)"
proof (rule bit_eqI)
  fix n
  assume "possible_bit TYPE(32 word) n"
  then have "n < 32" by simp
  then show "bit (ucast (of_le (bs @ cs) :: u64) :: u32) n = bit (of_le bs :: u32) n"
    using assms by (simp add: bit_simps bit_of_le nth_append less_mult_imp_div_less)
qed

text \<open>The last number typed is in the window.\<close>

fun last_input :: "u32 option list \<Rightarrow> u32 \<Rightarrow> u32" where
  "last_input [] d = d"
| "last_input (x # xs) d = last_input xs (case x of None \<Rightarrow> d | Some e \<Rightarrow> e)"

lemma put_low: "ucast (put_bits 31 0 d w :: u64) = (d :: u32)"
  by (rule bit_eqI) (auto simp: bit_put bit_simps)

lemma rmem_loop_run:
  assumes "span base 4 \<subseteq> dom (mem_of s)"
  shows "\<exists>s'. rmem_loop base xs sdata s = Inr (replicate (length xs) (Stdout ''data?'' []), s')
    \<and> drv_of s' = drv_of s \<and> dev_of s' = dev_of s \<and> dom (mem_of s') = dom (mem_of s)
    \<and> (xs \<noteq> [] \<longrightarrow> load_bytes (mem_of s') base 4 = Some (to_le 4 (last_input xs (ucast sdata))))"
  using assms
proof (induction xs arbitrary: s sdata)
  case (Cons x xs)
  define sd where "sd = (case x of None \<Rightarrow> sdata | Some d \<Rightarrow> put_bits 31 0 d sdata)"
  have low: "(ucast sd :: u32) = (case x of None \<Rightarrow> ucast sdata | Some e \<Rightarrow> e)"
    by (cases x) (simp_all add: sd_def put_low)
  obtain s1 where s1: "set_array base (to_le 4 (ucast sd :: u32)) s = Inr s1" "only_mem base 4 s s1"
    "load_bytes (mem_of s1) base 4 = Some (to_le 4 (ucast sd :: u32))"
    using set_array_run [of base "to_le 4 (ucast sd :: u32)" s] Cons.prems by auto
  have keep: "drv_of s1 = drv_of s" "dev_of s1 = dev_of s" "dom (mem_of s1) = dom (mem_of s)"
    using s1(2) by (simp_all add: only_mem_def)
  then have "span base 4 \<subseteq> dom (mem_of s1)" using Cons.prems by simp
  from Cons.IH [OF this, of sd] obtain s2 where
    s2: "rmem_loop base xs sd s1 = Inr (replicate (length xs) (Stdout ''data?'' []), s2)"
      "drv_of s2 = drv_of s1" "dev_of s2 = dev_of s1" "dom (mem_of s2) = dom (mem_of s1)"
      "xs \<noteq> [] \<longrightarrow> load_bytes (mem_of s2) base 4 = Some (to_le 4 (last_input xs (ucast sd)))"
    by blast
  have "load_bytes (mem_of s2) base 4 = Some (to_le 4 (last_input (x # xs) (ucast sdata)))"
  proof (cases "xs = []")
    case True
    with s1(3) s2(1) low show ?thesis by (auto simp: low split: option.split)
  next
    case False
    with s2(5) low show ?thesis by simp
  qed
  with s1(1) s2 keep show ?case
    by (intro exI [of _ s2]) (simp add: sd_def [symmetric] Let_def)
qed simp

text \<open>\<open>init_numa\<close> on the ECP3 board leaves the board's address in host order, and the bus address.\<close>

lemma rmem_init_run:
  assumes enc: "ioc_encoding (abi h)" and rd: "rd_mmio h = ecp3_rd" and mm: "mmio0_ptr (drv_of s) \<noteq> 0"
    and L: "rmem_loaded v s" and fd: "0 \<le> numa_fd"
  obtains t where "rmem_init h v numa_fd s = Inr (0, t)" "drv_of t = drv_of s" "dev_of t = dev_of s"
    "rmem_loaded v t" "dom (mem_of t) = dom (mem_of s)" "load_u64 (mem_of t) (m_bar v) = Some (mmio1_start (drv_of s))"
    "load_u64 (mem_of t) (m_mmu v) = Some (ucast (if_v4addr (dev_of s)))"
proof -
  have "span (m_mmu v) 4 \<subseteq> dom (mem_of s)" using L span_mono [of 4 8 "m_mmu v"] by (auto simp: rmem_loaded_def)
  from get_run [OF enc mm this, of GETIFV4ADDR 0] obtain s1 where
    s1: "ipnuma_ioctl h (cmd_code (abi h) GETIFV4ADDR) (m_mmu v) s = Inr (0, s1)" "only_mem (m_mmu v) 4 s s1"
      "load_bytes (mem_of s1) (m_mmu v) 4 = Some (to_be 4 (if_v4addr (dev_of s)))"
    by (auto simp: rd ecp3_reads)
  have L1: "rmem_loaded v s1" using L rmem_keep [OF s1(2)] by simp
  then obtain bs where bs: "load_bytes (mem_of s1) (m_mmu v) 8 = Some bs"
    using load_bytes_iff [of "mem_of s1" "m_mmu v" 8] by (auto simp: rmem_loaded_def)
  have "take 4 bs = to_be 4 (if_v4addr (dev_of s))" using load_bytes_take [OF bs, of 4] s1(3) by simp
  then have "bs = to_be 4 (if_v4addr (dev_of s)) @ drop 4 bs" by (metis append_take_drop_id)
  then have "ucast (of_le bs :: u64) = (of_le (to_be 4 (if_v4addr (dev_of s))) :: u32)"
    using low_cast [of "to_be 4 (if_v4addr (dev_of s))" "drop 4 bs"] by (simp add: to_be_def)
  then have mmu: "htonl (ucast (of_le bs :: u64)) = if_v4addr (dev_of s)" by (simp add: htonl_be)
  obtain s2 where s2: "set_array (m_mmu v) (to_le 8 (ucast (if_v4addr (dev_of s)) :: u64)) s1 = Inr s2"
    "only_mem (m_mmu v) 8 s1 s2"
    "load_bytes (mem_of s2) (m_mmu v) 8 = Some (to_le 8 (ucast (if_v4addr (dev_of s)) :: u64))"
    using set_array_run [of "m_mmu v" "to_le 8 (ucast (if_v4addr (dev_of s)) :: u64)" s1] L1
    by (metis le_refl length_to_le rmem_loaded_def)
  have L2: "rmem_loaded v s2" using L1 rmem_keep [OF s2(2)] by simp
  then have "span (m_bar v) 8 \<subseteq> dom (mem_of s2)" by (simp add: rmem_loaded_def)
  from getbaraddr_run [OF enc this] obtain s3 where
    s3: "ipnuma_ioctl h (cmd_code (abi h) GETBARADDR) (m_bar v) s2 = Inr (0, s3)" "only_mem (m_bar v) 8 s2 s3"
      "load_u64 (mem_of s3) (m_bar v) = Some (mmio1_start (drv_of s2))" by blast
  note same = only_mem_same [OF s1(2)] only_mem_same [OF s2(2)] only_mem_same [OF s3(2)]
  show ?thesis
  proof (rule that [of s3])
    show "rmem_init h v numa_fd s = Inr (0, s3)"
      using fd s2(1) mmu bs
      by (simp add: rmem_init_def ioctl_or_1_run [OF fd s1(1)] load_u64_def ioctl_or_1_run [OF fd s3(1)])
    show "rmem_loaded v s3" using L2 rmem_keep [OF s3(2)] by simp
    show "load_u64 (mem_of s3) (m_mmu v) = Some (ucast (if_v4addr (dev_of s)))"
      using s2(3) u64_keep [OF s3(2), of "m_mmu v"] L by (simp add: load_u64_def of_le_to_le rmem_loaded_def)
    show "dom (mem_of s3) = dom (mem_of s)" using s1(2) s2(2) s3(2) by (simp add: only_mem_def)
  qed (use same s3(3) in simp_all)
qed

section \<open>Properties\<close>

lemma ecp3_set_if_v4:
  assumes "ioc_encoding (abi h)" and "wr_mmio h = ecp3_wr" and "mmio0_ptr (drv_of s) \<noteq> 0"
    and "load_bytes (mem_of s) p 4 = Some (to_be 4 w)"
  shows "ipnuma_ioctl h (cmd_code (abi h) SETIFV4ADDR) p s = Inr (0, s\<lparr>dev_of := (dev_of s)\<lparr>if_v4addr := w\<rparr>\<rparr>)"
proof -
  have "of_be (to_be 4 w) = w" by (simp add: of_be_def to_be_def of_le_to_le)
  then show ?thesis using ecp3_set_run [OF assms(1-3), of SETIFV4ADDR 4 p "to_be 4 w"] assms(4) by simp
qed

lemma rmem_run:
  assumes enc: "ioc_encoding (abi h)" and rd: "rd_mmio h = ecp3_rd" and wr: "wr_mmio h = ecp3_wr"
    and mm: "mmio0_ptr (drv_of s) \<noteq> 0" and L: "rmem_loaded v s" and fd: "0 \<le> numa_fd" "0 \<le> mem_fd"
    and map: "dev_window (ucast (mmio1_start (drv_of s))) 0x100 = (off, len)" "mmap off len = Some base"
    and base: "span base 4 \<subseteq> dom (mem_of s)"
  shows "\<exists>t. rmem_main h v numa_fd mem_fd mmap inputs s =
      Inr ((Stdout ''baraddr=%x,mmuaddr=%x'' [mmio1_start (drv_of s) AND 0xffffffff, ucast (if_v4addr (dev_of s)) AND 0xffffffff]
            # replicate (length inputs) (Stdout ''data?'' []), Running), t)
    \<and> dev_of t = (dev_of s)\<lparr>if_v4addr := 0xd0000000\<rparr>
    \<and> (inputs \<noteq> [] \<longrightarrow> load_bytes (mem_of t) base 4 = Some (to_le 4 (last_input inputs 0)))"
proof -
  obtain s1 where s1: "rmem_init h v numa_fd s = Inr (0, s1)" "drv_of s1 = drv_of s" "dev_of s1 = dev_of s"
    "rmem_loaded v s1" "dom (mem_of s1) = dom (mem_of s)" "load_u64 (mem_of s1) (m_bar v) = Some (mmio1_start (drv_of s))"
    "load_u64 (mem_of s1) (m_mmu v) = Some (ucast (if_v4addr (dev_of s)))"
    using rmem_init_run [OF enc rd mm L fd(1)] by blast
  obtain s2 where s2: "set_array (m_i v) (to_le 4 (htonl 0xd0000000)) s1 = Inr s2" "only_mem (m_i v) 4 s1 s2"
    "load_bytes (mem_of s2) (m_i v) 4 = Some (to_le 4 (htonl 0xd0000000))"
    using set_array_run [of "m_i v" "to_le 4 (htonl 0xd0000000)" s1] s1(4) by (auto simp: rmem_loaded_def)
  define s3 where "s3 = s2\<lparr>dev_of := (dev_of s2)\<lparr>if_v4addr := 0xd0000000\<rparr>\<rparr>"
  have "mmio0_ptr (drv_of s2) \<noteq> 0" using mm s1(2) only_mem_same [OF s2(2)] by simp
  from ecp3_set_if_v4 [OF enc wr this, of "m_i v" "0xd0000000"] s2(3)
  have s3: "ipnuma_ioctl h (cmd_code (abi h) SETIFV4ADDR) (m_i v) s2 = Inr (0, s3)"
    by (simp add: htonl_bytes s3_def)
  have "span base 4 \<subseteq> dom (mem_of s3)" using base s1(5) s2(2) by (simp add: s3_def only_mem_def)
  from rmem_loop_run [OF this, of inputs 0] obtain t where
    t: "rmem_loop base inputs 0 s3 = Inr (replicate (length inputs) (Stdout ''data?'' []), t)"
      "dev_of t = dev_of s3" "inputs \<noteq> [] \<longrightarrow> load_bytes (mem_of t) base 4 = Some (to_le 4 (last_input inputs 0))"
    by auto
  have "dev_of s3 = (dev_of s)\<lparr>if_v4addr := 0xd0000000\<rparr>"
    using s1(3) only_mem_same [OF s2(2)] by (simp add: s3_def)
  with t s1 s2(1) map fd show ?thesis
    by (intro exI [of _ t]) (simp add: rmem_main_def Let_def ioctl_or_1_run [OF fd(1) s3])
qed

lemma rmem_no_driver:
  "numa_fd < 0 \<Longrightarrow> rmem_main h v numa_fd mem_fd mmap inputs s = Inr ((ev, e), t) \<Longrightarrow> e = Exit 1 \<and> dev_of t = dev_of s"
  by (auto simp: rmem_main_def rmem_init_def ioctl_or_1_def Let_def then_do_Inr_iff set_array_def
      split: option.splits if_splits prod.splits)

text \<open>
  Property C29: on the ECP3 board, with its files open, the program reads the board's IPv4 address in
  host order and the bus address of the window, maps the page of that address cut to 32 bits, sets
  the IPv4 address register to \<open>0xd0000000\<close> and from then on holds the last number typed in the
  first word of the mapping.
\<close>

theorem rmem_stores_inputs:
  assumes "ioc_encoding (abi h)" and "rd_mmio h = ecp3_rd" and "wr_mmio h = ecp3_wr"
    and "mmio0_ptr (drv_of s) \<noteq> 0" and "rmem_loaded v s" and "0 \<le> numa_fd" and "0 \<le> mem_fd"
    and "dev_window (ucast (mmio1_start (drv_of s))) 0x100 = (off, len)" and "mmap off len = Some base"
    and "span base 4 \<subseteq> dom (mem_of s)"
  shows "\<exists>t. rmem_main h v numa_fd mem_fd mmap inputs s =
      Inr ((Stdout ''baraddr=%x,mmuaddr=%x'' [mmio1_start (drv_of s) AND 0xffffffff, ucast (if_v4addr (dev_of s)) AND 0xffffffff]
            # replicate (length inputs) (Stdout ''data?'' []), Running), t)
    \<and> dev_of t = (dev_of s)\<lparr>if_v4addr := 0xd0000000\<rparr>
    \<and> (inputs \<noteq> [] \<longrightarrow> load_bytes (mem_of t) base 4 = Some (to_le 4 (last_input inputs 0)))"
  using assms by (rule rmem_run)

definition example_rmem :: rmem_vars where
  "example_rmem = \<lparr>m_mmu = 0x1000, m_bar = 0x1010, m_i = 0x1020\<rparr>"

theorem rmem_stores_inputs_witness:
  "\<exists>ev t. rmem_main (example_host ecp3_rd ecp3_wr) example_rmem 3 4
      (\<lambda>off len. if off = 0xEC000000 \<and> len = 0x100 then Some 0x7f0000000000 else None) [Some 5, None] example_state
      = Inr ((ev, Running), t)
    \<and> if_v4addr (dev_of t) = 0xd0000000 \<and> load_bytes (mem_of t) 0x7f0000000000 4 = Some (to_le 4 (5 :: u32))"
proof -
  have "rmem_loaded example_rmem example_state"
    by (simp add: rmem_loaded_def example_rmem_def span_disjoint)
  moreover have "dev_window (ucast (mmio1_start (drv_of example_state))) 0x100 = (0xEC000000, 0x100)"
    by (simp add: dev_window_def Let_def)
  ultimately show ?thesis
    using rmem_stores_inputs [of "example_host ecp3_rd ecp3_wr" example_state example_rmem 3 4 "0xEC000000" "0x100"
        "\<lambda>off len. if off = 0xEC000000 \<and> len = 0x100 then Some 0x7f0000000000 else None" "0x7f0000000000" "[Some 5, None]"]
    by auto
qed

end
