(* ===== verification/Ecp3_Server.thy ===== *)
theory Ecp3_Server
  imports Clib Boards
begin

text \<open>
  The receiving side of the ECP3 board, \<open>boards/ecp3versa/rtl/ecp3/server.v\<close>: a byte-at-a-time
  state machine that recognises the program's UDP datagrams and turns the write requests in them
  into words of the master FIFO.  One step is one clock with \<open>phy_rd_en\<close> set and a byte of the
  frame on \<open>phy_dout\<close>; the FIFO is assumed to deliver a frame without a gap, as it does once the
  frame is buffered.  This is the counterpart against which the client programs are checked.
\<close>

section \<open>The state machine\<close>

datatype srv_status =
    SRV_IDLE | SRV_HEAD0 | SRV_HEAD1 | SRV_ADDR64 | SRV_ADDR48 | SRV_ADDR32 | SRV_ADDR24
  | SRV_ADDR16 | SRV_ADDR8 | SRV_DATA

text \<open>
  The registers that decide what is written: of the frame header only the fields the filter tests.
  \<open>mst_hi\<close>, \<open>mst_mid\<close> and \<open>mst_lo\<close> are \<open>mst_din[17:16]\<close>, \<open>[15:8]\<close> and \<open>[7:0]\<close>.
\<close>

record srv =
  srv_status :: srv_status
  counter :: "12 word"
  eth_type :: u16
  ipv4_protocol :: byte
  ipv4_dest_port :: u16
  magic_code :: u32
  srv_64bit :: bool
  blen :: "7 word"
  phy_dout2 :: byte
  mst_hi :: "2 word"
  mst_mid :: byte
  mst_lo :: byte

type_synonym mst_word = "2 word \<times> byte \<times> byte"

text \<open>The frame header as it passes, byte by byte, and the filter on the last byte of the magic.\<close>

definition srv_idle :: "byte \<Rightarrow> srv \<Rightarrow> srv" where
  "srv_idle b s =
     (let c = counter s in
      if c = 0x0c then s\<lparr>eth_type := put_bits 15 8 b (eth_type s)\<rparr>
      else if c = 0x0d then s\<lparr>eth_type := put_bits 7 0 b (eth_type s)\<rparr>
      else if c = 0x17 then s\<lparr>ipv4_protocol := b\<rparr>
      else if c = 0x24 then s\<lparr>ipv4_dest_port := put_bits 15 8 b (ipv4_dest_port s)\<rparr>
      else if c = 0x25 then s\<lparr>ipv4_dest_port := put_bits 7 0 b (ipv4_dest_port s)\<rparr>
      else if c = 0x2a then s\<lparr>magic_code := put_bits 31 24 b (magic_code s)\<rparr>
      else if c = 0x2b then s\<lparr>magic_code := put_bits 23 16 b (magic_code s)\<rparr>
      else if c = 0x2c then s\<lparr>magic_code := put_bits 15 8 b (magic_code s)\<rparr>
      else if c = 0x2d then
        (if eth_type s = 0x0800 \<and> ipv4_protocol s = 0x11 \<and> ipv4_dest_port s = 0x0d5e
            \<and> put_bits 7 0 b (magic_code s) = 0xa1110000
         then s\<lparr>srv_status := SRV_HEAD0\<rparr> else s)
      else s)"

text \<open>
  One byte in any state: the new registers, and whether \<open>mst_wr_en\<close> is set, which pushes the new
  \<open>mst_din\<close> into the FIFO.  Every right-hand side reads the old registers.
\<close>

definition srv_byte :: "byte \<Rightarrow> srv \<Rightarrow> srv \<times> bool" where
  "srv_byte b s =
     (case srv_status s of
        SRV_IDLE \<Rightarrow> (srv_idle b s, False)
      | SRV_HEAD0 \<Rightarrow>
          (s\<lparr>mst_hi := 2, mst_mid := b, srv_64bit := bit b 6, blen := push_bit 2 (ucast (take_bit 6 b)),
             srv_status := (if b = 0 then SRV_IDLE else SRV_HEAD1)\<rparr>, False)
      | SRV_HEAD1 \<Rightarrow>
          (s\<lparr>mst_lo := b, srv_status := (if srv_64bit s then SRV_ADDR64 else SRV_ADDR32)\<rparr>, True)
      | SRV_ADDR64 \<Rightarrow> (s\<lparr>mst_hi := 0, mst_mid := 0, mst_lo := 0, srv_status := SRV_ADDR48\<rparr>, True)
      | SRV_ADDR48 \<Rightarrow> (s\<lparr>mst_lo := phy_dout2 s, srv_status := SRV_ADDR32\<rparr>, True)
      | SRV_ADDR32 \<Rightarrow>
          (if srv_64bit s
           then (s\<lparr>mst_hi := 0, mst_mid := phy_dout2 s, mst_lo := b, srv_status := SRV_ADDR16\<rparr>, True)
           else (s\<lparr>mst_hi := 0, mst_mid := b, srv_status := SRV_ADDR24\<rparr>, False))
      | SRV_ADDR24 \<Rightarrow>
          (s\<lparr>mst_lo := (if srv_64bit s then phy_dout2 s else b), srv_status := SRV_ADDR16\<rparr>, True)
      | SRV_ADDR16 \<Rightarrow> (s\<lparr>mst_mid := b, srv_status := SRV_ADDR8\<rparr>, False)
      | SRV_ADDR8 \<Rightarrow> (s\<lparr>mst_lo := b, srv_status := SRV_DATA\<rparr>, True)
      | SRV_DATA \<Rightarrow>
          (let s1 = s\<lparr>blen := blen s - 1\<rparr>;
               s2 = (if bit (blen s) 0 then s1\<lparr>mst_lo := b\<rparr> else s1\<lparr>mst_mid := b\<rparr>) in
           (if blen s = 1 then s2\<lparr>mst_hi := 1, srv_status := SRV_HEAD0\<rparr> else s2\<lparr>mst_hi := 0\<rparr>,
            bit (blen s) 0)))"

definition srv_step :: "byte \<Rightarrow> srv \<Rightarrow> srv \<times> mst_word list" where
  "srv_step b s =
     (case srv_byte b s of (t, wr) \<Rightarrow>
        (t\<lparr>counter := counter s + 1, phy_dout2 := b\<rparr>,
         if wr then [(mst_hi t, mst_mid t, mst_lo t)] else []))"

fun srv_run :: "byte list \<Rightarrow> srv \<Rightarrow> srv \<times> mst_word list" where
  "srv_run [] s = (s, [])"
| "srv_run (b # bs) s =
     (case srv_step b s of (t, ws) \<Rightarrow> case srv_run bs t of (u, vs) \<Rightarrow> (u, ws @ vs))"

text \<open>
  After a frame the FIFO delivers words with bit 8 clear (\<open>cores/gmii2fifo9\<close> appends two, with a zero
  byte): they clear the counter, not the status.
\<close>

definition srv_frame :: "byte list \<Rightarrow> srv \<Rightarrow> srv \<times> mst_word list" where
  "srv_frame bs s = (case srv_run bs s of (t, ws) \<Rightarrow> (t\<lparr>counter := 0, phy_dout2 := 0\<rparr>, ws))"

definition srv_reset :: srv where
  "srv_reset = \<lparr>srv_status = SRV_IDLE, counter = 0, eth_type = 0, ipv4_protocol = 0, ipv4_dest_port = 0,
     magic_code = 0, srv_64bit = False, blen = 0, phy_dout2 = 0, mst_hi = 0, mst_mid = 0, mst_lo = 0\<rparr>"

lemma srv_run_append:
  "srv_run (xs @ ys) s =
     (case srv_run xs s of (t, ws) \<Rightarrow> case srv_run ys t of (u, vs) \<Rightarrow> (u, ws @ vs))"
  by (induction xs arbitrary: s) (simp_all split: prod.splits)

lemma srv_run_silent: "srv_run xs s = (t, []) \<Longrightarrow> srv_run (xs @ ys) s = srv_run ys t"
  by (simp add: srv_run_append)

section \<open>Write requests\<close>

text \<open>
  A request as the programs send it: a command byte (write, address width, length in double
  words), the byte enables, the address and the data.
\<close>

datatype wr_req =
    is_Wr32: Wr32 (req_be: byte) (req_addr: "byte list") (req_data: "byte list")
  | is_Wr64: Wr64 (req_be: byte) (req_addr: "byte list") (req_data: "byte list")

text \<open>32-bit addresses have four bytes, 64-bit ones the low five of the eight; 1 to 31 double words.\<close>

definition wr_req_ok :: "wr_req \<Rightarrow> bool" where
  "wr_req_ok q \<longleftrightarrow>
     length (req_addr q) = (case q of Wr32 _ _ _ \<Rightarrow> 4 | Wr64 _ _ _ \<Rightarrow> 5)
     \<and> length (req_data q) mod 4 = 0 \<and> 0 < length (req_data q) \<and> length (req_data q) < 128"

definition cmd_byte :: "wr_req \<Rightarrow> byte" where
  "cmd_byte q =
     (case q of Wr32 _ _ _ \<Rightarrow> 0x80 | Wr64 _ _ _ \<Rightarrow> 0xc0) OR of_nat (length (req_data q) div 4)"

definition encode_req :: "wr_req \<Rightarrow> byte list" where
  "encode_req q = cmd_byte q # req_be q # req_addr q @ req_data q"

fun data_words :: "byte list \<Rightarrow> mst_word list" where
  "data_words [a, b] = [(1, a, b)]"
| "data_words (a # b # bs) = (0, a, b) # data_words bs"
| "data_words _ = []"

text \<open>The FIFO words of a request: command, address most significant first, data, the last one marked.\<close>

definition mst_words :: "wr_req \<Rightarrow> mst_word list" where
  "mst_words q =
     (2, cmd_byte q, req_be q) #
     (case q of
        Wr32 _ a _ \<Rightarrow> [(0, a ! 0, a ! 1), (0, a ! 2, a ! 3)]
      | Wr64 _ a _ \<Rightarrow> [(0, 0, 0), (0, 0, a ! 0), (0, a ! 1, a ! 2), (0, a ! 3, a ! 4)])
     @ data_words (req_data q)"

section \<open>Requests through the machine\<close>

lemma srv_step_simps [simp]:
  "srv_status (fst (srv_step b s)) = srv_status (fst (srv_byte b s))"
  "blen (fst (srv_step b s)) = blen (fst (srv_byte b s))"
  "mst_mid (fst (srv_step b s)) = mst_mid (fst (srv_byte b s))"
  by (simp_all add: srv_step_def split: prod.splits)

lemma blen_parity: "bit (of_nat n :: 7 word) 0 = odd n"
  by (simp add: bit_0)

lemma blen_one: "n < 128 \<Longrightarrow> (of_nat n :: 7 word) = 1 \<longleftrightarrow> n = 1"
  by (simp add: word_of_nat_eq_iff [of n 1, where ?'a = 7, simplified] take_bit_nat_eq_self)

text \<open>The data bytes go out two by two.\<close>

lemma data_run:
  "srv_status s = SRV_DATA \<Longrightarrow> blen s = of_nat (length bs) \<Longrightarrow> even (length bs) \<Longrightarrow> bs \<noteq> [] \<Longrightarrow>
     length bs < 128 \<Longrightarrow>
     snd (srv_run bs s) = data_words bs \<and> srv_status (fst (srv_run bs s)) = SRV_HEAD0"
proof (induction bs arbitrary: s rule: data_words.induct)
  case (1 a b)
  then show ?case
    by (simp add: srv_step_def srv_byte_def Let_def bit_0)
next
  case (2 a b c bs)
  let ?n = "length bs"
  define s1 where "s1 = fst (srv_step a s)"
  define s2 where "s2 = fst (srv_step b s1)"
  have n: "?n < 125" "odd ?n" using "2.prems" by simp_all
  have eq: "blen s = of_nat (Suc (Suc (Suc ?n)))" using "2.prems"(2) by simp
  have b0: "\<not> bit (blen s) 0" "blen s \<noteq> 1"
    unfolding eq using n blen_parity [of "Suc (Suc (Suc ?n))"] blen_one [of "Suc (Suc (Suc ?n))"]
    by (simp_all del: of_nat_Suc)
  then have step1: "srv_step a s = (s1, [])" and st1: "srv_status s1 = SRV_DATA" "mst_mid s1 = a"
      "blen s1 = of_nat (Suc (Suc ?n))"
    using "2.prems"(1) eq by (simp_all add: s1_def srv_step_def srv_byte_def Let_def)
  have b1: "bit (blen s1) 0" "blen s1 \<noteq> 1"
    unfolding st1 using n blen_parity [of "Suc (Suc ?n)"] blen_one [of "Suc (Suc ?n)"]
    by (simp_all del: of_nat_Suc)
  then have step2: "srv_step b s1 = (s2, [(0, a, b)])" and st2: "srv_status s2 = SRV_DATA"
      "blen s2 = of_nat (Suc ?n)"
    using st1 by (simp_all add: s2_def srv_step_def srv_byte_def Let_def)
  have "snd (srv_run (c # bs) s2) = data_words (c # bs)
      \<and> srv_status (fst (srv_run (c # bs) s2)) = SRV_HEAD0"
    by (rule "2.IH") (use st2 n in simp_all)
  then show ?case
    by (simp add: step1 step2 del: srv_run.simps(2) data_words.simps(1)) (simp add: step1 step2 split: prod.splits)
qed simp_all

lemma cmd_byte_fields:
  assumes "wr_req_ok q"
  shows "cmd_byte q \<noteq> 0" and "bit (cmd_byte q) 6 = is_Wr64 q"
    and "push_bit 2 (ucast (take_bit 6 (cmd_byte q))) = (of_nat (length (req_data q)) :: 7 word)"
proof -
  define n where "n = length (req_data q) div 4"
  have n: "n < 32" "length (req_data q) = 4 * n"
    using assms by (auto simp: wr_req_ok_def n_def)
  have "n \<in> set [0..<32]" using n by simp
  then have all: "list_all (\<lambda>n. 0x80 OR of_nat n \<noteq> (0 :: byte) \<and> 0xc0 OR of_nat n \<noteq> (0 :: byte)
      \<and> \<not> bit (0x80 OR of_nat n :: byte) 6 \<and> bit (0xc0 OR of_nat n :: byte) 6
      \<and> push_bit 2 (ucast (take_bit 6 (0x80 OR of_nat n :: byte))) = (of_nat (4 * n) :: 7 word)
      \<and> push_bit 2 (ucast (take_bit 6 (0xc0 OR of_nat n :: byte))) = (of_nat (4 * n) :: 7 word)) [0..<32]
     \<Longrightarrow> cmd_byte q \<noteq> 0 \<and> bit (cmd_byte q) 6 = is_Wr64 q
      \<and> push_bit 2 (ucast (take_bit 6 (cmd_byte q))) = (of_nat (length (req_data q)) :: 7 word)"
    using n by (cases q) (auto simp: cmd_byte_def list_all_iff simp flip: n_def)
  have "cmd_byte q \<noteq> 0 \<and> bit (cmd_byte q) 6 = is_Wr64 q
      \<and> push_bit 2 (ucast (take_bit 6 (cmd_byte q))) = (of_nat (length (req_data q)) :: 7 word)"
    by (rule all) (simp add: upt_rec)
  then show "cmd_byte q \<noteq> 0" and "bit (cmd_byte q) 6 = is_Wr64 q"
    and "push_bit 2 (ucast (take_bit 6 (cmd_byte q))) = (of_nat (length (req_data q)) :: 7 word)"
    by simp_all
qed

lemma length_Suc_5: "length bs = 5 \<longleftrightarrow> (\<exists>a b c d e. bs = [a, b, c, d, e])"
  and length_Suc_4': "length bs = 4 \<longleftrightarrow> (\<exists>a b c d. bs = [a, b, c, d])"
  by (auto simp: numeral_eq_Suc length_Suc_conv)

text \<open>The command, enables and address leave the machine ready for the data.\<close>

lemma header_run:
  assumes "wr_req_ok q" and "srv_status s = SRV_HEAD0"
  shows "\<exists>t. srv_run (cmd_byte q # req_be q # req_addr q) s =
      (t, (2, cmd_byte q, req_be q) #
       (case q of
          Wr32 _ a _ \<Rightarrow> [(0, a ! 0, a ! 1), (0, a ! 2, a ! 3)]
        | Wr64 _ a _ \<Rightarrow> [(0, 0, 0), (0, 0, a ! 0), (0, a ! 1, a ! 2), (0, a ! 3, a ! 4)]))
    \<and> srv_status t = SRV_DATA \<and> blen t = of_nat (length (req_data q))"
proof (cases q)
  case (Wr32 be a d)
  with assms(1) obtain a0 a1 a2 a3 where a: "a = [a0, a1, a2, a3]"
    by (auto simp: wr_req_ok_def length_Suc_4')
  show ?thesis
    using cmd_byte_fields [OF assms(1)] assms(2)
    by (simp add: Wr32 a srv_step_def srv_byte_def)
next
  case (Wr64 be a d)
  with assms(1) obtain a0 a1 a2 a3 a4 where a: "a = [a0, a1, a2, a3, a4]"
    by (auto simp: wr_req_ok_def length_Suc_5)
  show ?thesis
    using cmd_byte_fields [OF assms(1)] assms(2)
    by (simp add: Wr64 a srv_step_def srv_byte_def)
qed

lemma request_run:
  assumes "wr_req_ok q" and "srv_status s = SRV_HEAD0"
  shows "snd (srv_run (encode_req q) s) = mst_words q \<and> srv_status (fst (srv_run (encode_req q) s)) = SRV_HEAD0"
proof -
  obtain t where t: "srv_run (cmd_byte q # req_be q # req_addr q) s =
      (t, (2, cmd_byte q, req_be q) #
       (case q of
          Wr32 _ a _ \<Rightarrow> [(0, a ! 0, a ! 1), (0, a ! 2, a ! 3)]
        | Wr64 _ a _ \<Rightarrow> [(0, 0, 0), (0, 0, a ! 0), (0, a ! 1, a ! 2), (0, a ! 3, a ! 4)]))"
    "srv_status t = SRV_DATA" "blen t = of_nat (length (req_data q))"
    using header_run [OF assms] by blast
  have "even (length (req_data q))" "req_data q \<noteq> []" "length (req_data q) < 128"
    using assms(1) by (auto simp: wr_req_ok_def)
  then have "snd (srv_run (req_data q) t) = data_words (req_data q)
      \<and> srv_status (fst (srv_run (req_data q) t)) = SRV_HEAD0"
    using data_run t by blast
  moreover have "encode_req q = (cmd_byte q # req_be q # req_addr q) @ req_data q"
    by (simp add: encode_req_def)
  ultimately show ?thesis
    by (simp only: srv_run_append t(1)) (simp add: mst_words_def case_prod_beta)
qed

lemma requests_run:
  "\<forall>q \<in> set qs. wr_req_ok q \<Longrightarrow> srv_status s = SRV_HEAD0 \<Longrightarrow>
     snd (srv_run (concat (map encode_req qs)) s) = concat (map mst_words qs)
     \<and> srv_status (fst (srv_run (concat (map encode_req qs)) s)) = SRV_HEAD0"
proof (induction qs arbitrary: s)
  case (Cons q qs)
  obtain t ws where t: "srv_run (encode_req q) s = (t, ws)" by fastforce
  with request_run [of q s] Cons.prems have "ws = mst_words q" "srv_status t = SRV_HEAD0" by simp_all
  with t Cons.IH [of t] Cons.prems(1) show ?case
    by (simp add: srv_run_append case_prod_beta)
qed simp

section \<open>Whole frames\<close>

text \<open>
  A UDP frame up to the end of its payload: MAC addresses, type, the first part of the IP header, the
  protocol, the rest with both addresses and the source port, the destination port, UDP length and
  checksum, and the payload.  The parts in between are arbitrary.  On the wire the padding of short
  frames and the checksum follow, which \<open>cores/gmii2fifo9\<close> passes on: wherever a frame meets the
  board a \<open>trailer\<close> of arbitrary bytes is appended.
\<close>

definition udp_frame :: "byte list \<Rightarrow> byte list \<Rightarrow> byte list \<Rightarrow> byte list \<Rightarrow> u16 \<Rightarrow> byte list \<Rightarrow> byte list" where
  "udp_frame macs ip_head ip_rest udp_rest port payload =
     macs @ [0x08, 0x00] @ ip_head @ [0x11] @ ip_rest @ [byte_at 1 port, byte_at 0 port] @ udp_rest @ payload"

definition frame_parts_ok :: "byte list \<Rightarrow> byte list \<Rightarrow> byte list \<Rightarrow> byte list \<Rightarrow> bool" where
  "frame_parts_ok macs ip_head ip_rest udp_rest \<longleftrightarrow>
     length macs = 12 \<and> length ip_head = 9 \<and> length ip_rest = 12 \<and> length udp_rest = 4"

definition ignored_count :: "nat \<Rightarrow> bool" where
  "ignored_count c \<longleftrightarrow> c < 12 \<or> (14 \<le> c \<and> c < 23) \<or> (24 \<le> c \<and> c < 36) \<or> (38 \<le> c \<and> c < 42) \<or> 46 \<le> c"

lemma idle_ignores:
  assumes "counter s = of_nat c" and "c < 4096" and "ignored_count c"
  shows "srv_idle b s = s"
proof -
  have "unat (counter s) = c" using assms by (simp add: unat_of_nat take_bit_nat_eq_self)
  then have eq: "counter s = w \<longleftrightarrow> c = unat w" for w by (simp add: word_unat_eq_iff)
  have "c \<noteq> 12" "c \<noteq> 13" "c \<noteq> 23" "c \<noteq> 36" "c \<noteq> 37" "c \<noteq> 42" "c \<noteq> 43" "c \<noteq> 44" "c \<noteq> 45"
    using assms(3) by (auto simp: ignored_count_def)
  then show ?thesis by (simp add: srv_idle_def Let_def eq)
qed

text \<open>A stretch of header that the filter does not look at.\<close>

lemma skip_run:
  "srv_status s = SRV_IDLE \<Longrightarrow> counter s = of_nat c \<Longrightarrow> c + length bs \<le> 4096 \<Longrightarrow>
     (\<forall>i < length bs. ignored_count (c + i)) \<Longrightarrow>
     srv_run bs s = (s\<lparr>counter := of_nat (c + length bs), phy_dout2 := last (phy_dout2 s # bs)\<rparr>, [])"
proof (induction bs arbitrary: s c)
  case Nil
  then show ?case by simp
next
  case (Cons b bs)
  have "ignored_count c" using Cons.prems(4) [rule_format, of 0] by simp
  then have "srv_idle b s = s" using Cons.prems(2,3) by (intro idle_ignores) simp_all
  then have step: "srv_step b s = (s\<lparr>counter := of_nat (Suc c), phy_dout2 := b\<rparr>, [])"
    using Cons.prems(1,2) by (simp add: srv_step_def srv_byte_def add.commute)
  have rest: "\<forall>i < length bs. ignored_count (Suc c + i)"
  proof (intro allI impI)
    fix i assume "i < length bs"
    then show "ignored_count (Suc c + i)" using Cons.prems(4) [rule_format, of "Suc i"] by simp
  qed
  show ?case
    using Cons.IH [of "s\<lparr>counter := of_nat (Suc c), phy_dout2 := b\<rparr>" "Suc c"] Cons.prems(1,3) rest
    by (simp add: step del: of_nat_Suc)
qed

lemma of_be_port: "of_be [byte_at 1 p, byte_at 0 p] = (p :: u16)"
  using of_le_to_le [of 2 p] by (simp add: of_be_def to_le_def numeral_2_eq_2)

lemma magic_iff: "(of_be [b0, b1, b2, b3] :: u32) = 0xa1110000 \<longleftrightarrow> [b0, b1, b2, b3] = [0xa1, 0x11, 0, 0]"
proof -
  have eq: "(0xa1110000 :: u32) = of_be [0xa1, 0x11, 0, 0]" by (simp add: of_be_def)
  have "to_le 4 (of_be [b0, b1, b2, b3] :: u32) = rev [b0, b1, b2, b3]" for b0 b1 b2 b3
    using to_le_of_le [of "rev [b0, b1, b2, b3]", where ?'a = 32]
    by (simp add: of_be_def numeral_eq_Suc del: of_le.simps)
  then show ?thesis unfolding eq by (metis rev_rev_ident)
qed

text \<open>The header and the magic: the machine accepts exactly the program's datagrams.\<close>

lemma filter_run:
  assumes parts: "frame_parts_ok macs ip_head ip_rest udp_rest"
    and s: "srv_status s = SRV_IDLE" "counter s = 0"
  obtains t where
    "srv_run (udp_frame macs ip_head ip_rest udp_rest port ([m0, m1, m2, m3] @ rest)) s = srv_run rest t"
    "srv_status t = (if port = 0x0d5e \<and> [m0, m1, m2, m3] = [0xa1, 0x11, 0, 0] then SRV_HEAD0 else SRV_IDLE)"
    "counter t = of_nat 46"
proof -
  have len: "length macs = 12" "length ip_head = 9" "length ip_rest = 12" "length udp_rest = 4"
    using parts by (simp_all add: frame_parts_ok_def)
  define s1 where "s1 = fst (srv_run macs s)"
  have r1: "srv_run macs s = (s1, [])" and s1: "srv_status s1 = SRV_IDLE" "counter s1 = 12"
    using skip_run [of s 0 macs] s len by (simp_all add: ignored_count_def s1_def)
  define s2 where "s2 = fst (srv_run [0x08, 0x00] s1)"
  have r2: "srv_run [0x08, 0x00] s1 = (s2, [])" and s2: "srv_status s2 = SRV_IDLE" "counter s2 = 14"
      "eth_type s2 = 0x0800"
    using s1 by (simp_all add: s2_def srv_step_def srv_byte_def srv_idle_def Let_def put_all_16 of_be_def)
  define s3 where "s3 = fst (srv_run ip_head s2)"
  have r3: "srv_run ip_head s2 = (s3, [])" and s3: "srv_status s3 = SRV_IDLE" "counter s3 = 23"
      "eth_type s3 = 0x0800"
    using skip_run [of s2 14 ip_head] s2 len by (simp_all add: ignored_count_def s3_def)
  define s4 where "s4 = fst (srv_run [0x11] s3)"
  have r4: "srv_run [0x11] s3 = (s4, [])" and s4: "srv_status s4 = SRV_IDLE" "counter s4 = 24"
      "eth_type s4 = 0x0800" "ipv4_protocol s4 = 0x11"
    using s3 by (simp_all add: s4_def srv_step_def srv_byte_def srv_idle_def Let_def)
  define s5 where "s5 = fst (srv_run ip_rest s4)"
  have r5: "srv_run ip_rest s4 = (s5, [])" and s5: "srv_status s5 = SRV_IDLE" "counter s5 = 36"
      "eth_type s5 = 0x0800" "ipv4_protocol s5 = 0x11"
    using skip_run [of s4 24 ip_rest] s4 len by (simp_all add: ignored_count_def s5_def)
  define s6 where "s6 = fst (srv_run [byte_at 1 port, byte_at 0 port] s5)"
  have r6: "srv_run [byte_at 1 port, byte_at 0 port] s5 = (s6, [])" and s6: "srv_status s6 = SRV_IDLE"
      "counter s6 = 38" "eth_type s6 = 0x0800" "ipv4_protocol s6 = 0x11" "ipv4_dest_port s6 = port"
    using s5 of_be_port [of port]
    by (simp_all add: s6_def srv_step_def srv_byte_def srv_idle_def Let_def put_all_16)
  define s7 where "s7 = fst (srv_run udp_rest s6)"
  have r7: "srv_run udp_rest s6 = (s7, [])" and s7: "srv_status s7 = SRV_IDLE"
      "counter s7 = 42" "eth_type s7 = 0x0800" "ipv4_protocol s7 = 0x11" "ipv4_dest_port s7 = port"
    using skip_run [of s6 38 udp_rest] s6 len by (simp_all add: ignored_count_def s7_def)
  define s8 where "s8 = fst (srv_run [m0, m1, m2, m3] s7)"
  have r8: "srv_run [m0, m1, m2, m3] s7 = (s8, [])" and s8: "counter s8 = 46"
      "srv_status s8 = (if port = 0x0d5e \<and> [m0, m1, m2, m3] = [0xa1, 0x11, 0, 0] then SRV_HEAD0 else SRV_IDLE)"
    using s7 by (simp_all add: s8_def srv_step_def srv_byte_def srv_idle_def Let_def put_all_32 magic_iff)
  show ?thesis
  proof (rule that [of s8])
    show "srv_run (udp_frame macs ip_head ip_rest udp_rest port ([m0, m1, m2, m3] @ rest)) s = srv_run rest s8"
      by (simp only: udp_frame_def srv_run_silent [OF r1] srv_run_silent [OF r2] srv_run_silent [OF r3]
          srv_run_silent [OF r4] srv_run_silent [OF r5] srv_run_silent [OF r6] srv_run_silent [OF r7]
          srv_run_silent [OF r8])
  qed (use s8 in simp_all)
qed

section \<open>Accepted and ignored frames\<close>

definition write_payload :: "wr_req list \<Rightarrow> byte list" where
  "write_payload qs = [0xa1, 0x11, 0x00, 0x00] @ concat (map encode_req qs) @ [0x00]"

lemma delimiter_run:
  "srv_status s = SRV_HEAD0 \<Longrightarrow> srv_status (fst (srv_run [0x00] s)) = SRV_IDLE \<and> snd (srv_run [0x00] s) = []"
  by (simp add: srv_step_def srv_byte_def)

lemma srv_run_counter: "counter (fst (srv_run bs s)) = counter s + of_nat (length bs)"
proof (induction bs arbitrary: s)
  case (Cons b bs)
  have "counter (fst (srv_step b s)) = counter s + 1"
    by (simp add: srv_step_def split: prod.splits)
  with Cons show ?case by (simp add: case_prod_beta ac_simps)
qed simp

text \<open>Behind the header an idle machine lets the rest of a frame pass, up to the end of the counter.\<close>

lemma idle_run:
  assumes "srv_status s = SRV_IDLE" and "counter s = of_nat c" and "46 \<le> c" and "c + length bs \<le> 4096"
  shows "snd (srv_run bs s) = [] \<and> srv_status (fst (srv_run bs s)) = SRV_IDLE"
  using skip_run [OF assms(1,2,4)] assms(1,3) by (simp add: ignored_count_def)

lemma accepted_run:
  assumes "frame_parts_ok macs ip_head ip_rest udp_rest" and "srv_status s = SRV_IDLE" "counter s = 0"
    and "\<forall>q \<in> set qs. wr_req_ok q" and "42 + length (write_payload qs) + length trailer \<le> 4096"
  shows "snd (srv_run (udp_frame macs ip_head ip_rest udp_rest 0x0d5e (write_payload qs) @ trailer) s)
      = concat (map mst_words qs)
    \<and> srv_status (fst (srv_run (udp_frame macs ip_head ip_rest udp_rest 0x0d5e (write_payload qs) @ trailer) s)) = SRV_IDLE"
proof -
  let ?reqs = "concat (map encode_req qs)"
  have frame: "udp_frame macs ip_head ip_rest udp_rest 0x0d5e (write_payload qs) @ trailer =
      udp_frame macs ip_head ip_rest udp_rest 0x0d5e ([0xa1, 0x11, 0, 0] @ ?reqs @ [0x00] @ trailer)"
    by (simp add: udp_frame_def write_payload_def)
  obtain t where run: "srv_run (udp_frame macs ip_head ip_rest udp_rest 0x0d5e (write_payload qs) @ trailer) s
      = srv_run (?reqs @ [0x00] @ trailer) t" and t: "srv_status t = SRV_HEAD0" "counter t = of_nat 46"
    using filter_run [OF assms(1-3), of "0x0d5e" "0xa1" "0x11" 0 0 "?reqs @ [0x00] @ trailer"]
    unfolding frame by auto
  define u where "u = fst (srv_run ?reqs t)"
  have u: "srv_run ?reqs t = (u, concat (map mst_words qs))" "srv_status u = SRV_HEAD0"
    using requests_run [OF assms(4) t(1)] by (simp_all add: u_def prod_eq_iff)
  define v where "v = fst (srv_run [0x00] u)"
  have v: "srv_run [0x00] u = (v, [])" "srv_status v = SRV_IDLE"
    using delimiter_run [OF u(2)] by (simp_all add: v_def prod_eq_iff del: srv_run.simps)
    define c where "c = 46 + length ?reqs + 1"
  have "counter v = of_nat c"
    using srv_run_counter [of "[0x00]" u] srv_run_counter [of ?reqs t] u(1) v(1) t(2) by (simp add: c_def)
    moreover have "46 \<le> c" "c + length trailer \<le> 4096"
    using assms(5) by (simp_all add: c_def write_payload_def)
  ultimately have "snd (srv_run trailer v) = [] \<and> srv_status (fst (srv_run trailer v)) = SRV_IDLE"
    by (rule idle_run [OF v(2)])
  moreover have "srv_run (?reqs @ [0x00] @ trailer) t =
      (fst (srv_run trailer v), concat (map mst_words qs) @ snd (srv_run trailer v))"
    by (simp only: srv_run_append [of ?reqs] u(1) srv_run_silent [OF v(1)] prod.case) (simp add: case_prod_beta)
  ultimately show ?thesis
    unfolding run by simp
qed

lemma accepted_frame:
  assumes "frame_parts_ok macs ip_head ip_rest udp_rest" and "srv_status s = SRV_IDLE" "counter s = 0"
    and "\<forall>q \<in> set qs. wr_req_ok q" and "42 + length (write_payload qs) + length trailer \<le> 4096"
  shows "snd (srv_frame (udp_frame macs ip_head ip_rest udp_rest 0x0d5e (write_payload qs) @ trailer) s)
      = concat (map mst_words qs)
    \<and> srv_status (fst (srv_frame (udp_frame macs ip_head ip_rest udp_rest 0x0d5e (write_payload qs) @ trailer) s)) = SRV_IDLE
    \<and> counter (fst (srv_frame (udp_frame macs ip_head ip_rest udp_rest 0x0d5e (write_payload qs) @ trailer) s)) = 0"
  using accepted_run [OF assms] by (simp add: srv_frame_def case_prod_beta)

text \<open>A frame that is not the program's, as far as the counter goes.\<close>

lemma ignored_run:
  assumes "frame_parts_ok macs ip_head ip_rest udp_rest" and "srv_status s = SRV_IDLE" "counter s = 0"
    and "port \<noteq> 0x0d5e \<or> take 4 body \<noteq> [0xa1, 0x11, 0, 0]" and "4 \<le> length body"
    and "42 + length body \<le> 4096"
  shows "\<exists>t. srv_run (udp_frame macs ip_head ip_rest udp_rest port body) s = (t, [])
    \<and> srv_status t = SRV_IDLE \<and> counter t = of_nat (42 + length body)"
proof -
  obtain m0 m1 m2 m3 where "take 4 body = [m0, m1, m2, m3]"
    using assms(5) length_Suc_4' [of "take 4 body"] by auto
  then obtain rest where body: "body = [m0, m1, m2, m3] @ rest"
    by (metis append_take_drop_id)
  obtain t where run: "srv_run (udp_frame macs ip_head ip_rest udp_rest port ([m0, m1, m2, m3] @ rest)) s = srv_run rest t"
    and st: "srv_status t = (if port = 0x0d5e \<and> [m0, m1, m2, m3] = [0xa1, 0x11, 0, 0] then SRV_HEAD0 else SRV_IDLE)"
    and ct: "counter t = of_nat 46"
    by (rule filter_run [OF assms(1-3)])
  have st': "srv_status t = SRV_IDLE" using st assms(4) by (simp add: body split: if_splits)
  have "srv_run rest t = (t\<lparr>counter := of_nat (46 + length rest), phy_dout2 := last (phy_dout2 t # rest)\<rparr>, [])"
    by (rule skip_run) (use st' ct assms(6) in \<open>simp_all add: body ignored_count_def\<close>)
  with st' show ?thesis unfolding body run by simp
qed

lemma ignored_frame:
  assumes "frame_parts_ok macs ip_head ip_rest udp_rest" and "srv_status s = SRV_IDLE" "counter s = 0"
    and "port \<noteq> 0x0d5e \<or> take 4 (payload @ trailer) \<noteq> [0xa1, 0x11, 0, 0]"
    and "4 \<le> length (payload @ trailer)" and "42 + length (payload @ trailer) \<le> 4096"
  shows "snd (srv_frame (udp_frame macs ip_head ip_rest udp_rest port payload @ trailer) s) = []
    \<and> srv_status (fst (srv_frame (udp_frame macs ip_head ip_rest udp_rest port payload @ trailer) s)) = SRV_IDLE"
proof -
  have "udp_frame macs ip_head ip_rest udp_rest port payload @ trailer =
      udp_frame macs ip_head ip_rest udp_rest port (payload @ trailer)" by (simp add: udp_frame_def)
  then show ?thesis using ignored_run [OF assms] by (auto simp: srv_frame_def)
qed

text \<open>
  The counter has twelve bits: byte 4096 of a frame counts as its first again, so a program's frame
  inside a foreign one is taken for a frame.
\<close>

lemma wrapped_frame:
  assumes "frame_parts_ok macs ip_head ip_rest udp_rest" and "srv_status s = SRV_IDLE" "counter s = 0"
    and "port \<noteq> 0x0d5e \<or> take 4 filler \<noteq> [0xa1, 0x11, 0, 0]" and "42 + length filler = 4096"
    and "frame_parts_ok macs' ip_head' ip_rest' udp_rest'" and "\<forall>q \<in> set qs. wr_req_ok q"
    and "42 + length (write_payload qs) + length trailer \<le> 4096"
  shows "snd (srv_frame (udp_frame macs ip_head ip_rest udp_rest port
      (filler @ udp_frame macs' ip_head' ip_rest' udp_rest' 0x0d5e (write_payload qs)) @ trailer) s)
    = concat (map mst_words qs)"
proof -
  have split: "udp_frame macs ip_head ip_rest udp_rest port (filler @ inner) @ trailer =
      udp_frame macs ip_head ip_rest udp_rest port filler @ inner @ trailer" for inner
    by (simp add: udp_frame_def)
  have "4 \<le> length filler" "42 + length filler \<le> 4096" using assms(5) by simp_all
  from ignored_run [OF assms(1-4) this] obtain t where
    t: "srv_run (udp_frame macs ip_head ip_rest udp_rest port filler) s = (t, [])"
    "srv_status t = SRV_IDLE" "counter t = of_nat 4096"
    by (auto simp: assms(5))
  have "counter t = 0" using t(3) by simp
  from accepted_run [OF assms(6) t(2) this assms(7,8)] show ?thesis
    unfolding split srv_frame_def by (simp add: srv_run_silent [OF t(1)] case_prod_beta)
qed

end
