(* ===== verification/Ecp3_Client.thy ===== *)
theory Ecp3_Client
  imports Ecp3_Server
begin

text \<open>
  The three client programs of the ECP3 board: \<open>software/ecp3_test/ipnuma_client.c\<close> (one 64-bit
  write), \<open>a32.c\<close> and \<open>a64.c\<close> (endless 32- and 64-bit writes of a growing value), and the blast
  mode the three share when they get no address.  A program is a function of its arguments, of
  the network it runs on and of the indeterminate initial values of its locals; an endless loop
  is run for a given number of rounds.
\<close>

section \<open>Building a datagram\<close>

definition SERV_PORT :: u16 where
  "SERV_PORT = 3422"

definition BUFSIZE :: nat where
  "BUFSIZE = 1024"

text \<open>Assignments to \<open>sdata\<close>, in order: index and value.\<close>

primrec put_all :: "(nat \<times> byte) list \<Rightarrow> byte list \<Rightarrow> byte list" where
  "put_all [] sd = sd"
| "put_all (x # xs) sd = put_all xs (sd[fst x := snd x])"

text \<open>\<open>(w >> k) & 0xff\<close> of a signed integer, as a \<open>char\<close>.\<close>

definition shr8 :: "nat \<Rightarrow> 'a::len word \<Rightarrow> byte" where
  "shr8 k w = ucast (signed_drop_bit k w AND 0xff)"

lemma shr8_byte_at: "8 * i + 8 \<le> LENGTH('a) \<Longrightarrow> shr8 (8 * i) (w :: 'a::len word) = byte_at i w"
proof -
  assume len: "8 * i + 8 \<le> LENGTH('a)"
  have mask: "(0xff :: 'a word) = mask 8" by (simp add: mask_eq_exp_minus_1)
  show ?thesis
    by (rule bit_eqI) (use len in \<open>auto simp: shr8_def byte_at_def mask bit_simps ac_simps\<close>)
qed

lemmas shr8_bytes [simp] =
  shr8_byte_at [of 0, simplified] shr8_byte_at [of 1, simplified] shr8_byte_at [of 2, simplified]
  shr8_byte_at [of 3, simplified] shr8_byte_at [of 4, simplified]

section \<open>Blast mode\<close>

definition dwlen :: nat where
  "dwlen = 16"

definition blast_header :: "byte \<Rightarrow> byte list \<Rightarrow> byte list" where
  "blast_header a6 =
     put_all [(4, 0x80 OR of_nat dwlen), (5, 0xff), (6, a6), (7, 0x00), (8, 0x00), (9, 0x00),
       (dwlen*4+10, 0x80 OR of_nat dwlen), (dwlen*4+11, 0xff), (dwlen*4+12, 0xc0), (dwlen*4+13, 0x00),
       (dwlen*4+14, 0x02), (dwlen*4+15, 0x80)]"

definition blast_byte :: "nat \<Rightarrow> nat \<Rightarrow> byte" where
  "blast_byte n k = of_nat ((n AND 0xf) * 0x10 + k)"

text \<open>The inner loop over \<open>i\<close>, \<open>m\<close> rounds of it.\<close>

primrec blast_fill :: "nat \<Rightarrow> nat \<Rightarrow> byte list \<Rightarrow> byte list" where
  "blast_fill j 0 sd = sd"
| "blast_fill j (Suc i) sd = (let sd = blast_fill j i sd in
     put_all [(10+i*4+0, blast_byte (i+j) 0), (10+i*4+1, blast_byte (i+j) 1),
       (10+i*4+2, blast_byte (i+j) 2), (10+i*4+3, blast_byte (i+j) 3),
       (16+(i+dwlen)*4+0, blast_byte (i+j+1) 0), (16+(i+dwlen)*4+1, blast_byte (i+j+1) 1),
       (16+(i+dwlen)*4+2, blast_byte (i+j+1) 2), (16+(i+dwlen)*4+3, blast_byte (i+j+1) 3)] sd)"

text \<open>\<open>n\<close> rounds of the endless loop over \<open>j\<close>.\<close>

primrec blast_loop :: "net_env \<Rightarrow> sockaddr \<Rightarrow> nat \<Rightarrow> nat \<Rightarrow> byte list \<Rightarrow> io_event list" where
  "blast_loop e a j 0 sd = []"
| "blast_loop e a j (Suc n) sd =
     (let sd = blast_fill j dwlen sd in
      send_events e (j - 1) a (take (16+(4*dwlen*2)+1) sd) @ [Usleep 1] @ blast_loop e a (j + 1) n sd)"

section \<open>The programs\<close>

text \<open>What every client does first: arguments, address, socket, the zeroed buffer with the magic.\<close>

definition ecp3_start ::
    "net_env \<Rightarrow> u64 \<Rightarrow> u64 \<Rightarrow> string list
       \<Rightarrow> (sockaddr \<Rightarrow> u64 \<Rightarrow> u64 \<Rightarrow> byte list \<Rightarrow> program_run) \<Rightarrow> program_run" where
  "ecp3_start e junk_addr junk_data argv rest =
     (let argc = length argv in
      if argc < 2 then ([Stderr ''usage: [dest IP] <write_address> <write_data>''], Exit (-1))
      else case strcpy_into 256 (argv ! 1) of None \<Rightarrow> ([], Overflow) | Some dest_ip \<Rightarrow>
      let write_addr = (if argc \<ge> 3 then strtol_0 (argv ! 2) else junk_addr);
          ev = (if argc \<ge> 3 then [Stdout ''write_addr=%012lx'' [write_addr]] else []);
          write_data = (if argc \<ge> 4 then strtol_0 (argv ! 3) else junk_data);
          ev = ev @ (if argc \<ge> 4 then [Stdout ''write_data=%08x'' [write_data AND 0xffffffff]] else []);
          servaddr = peer_addr e SERV_PORT dest_ip in
      if socket_ret e < 0 then (ev @ [Perror ''socket()''], Exit 1)
      else
      let sdata = put_all [(0, 0xa1), (1, 0x11), (2, 0x00), (3, 0x00)] (replicate BUFSIZE 0);
          r = rest servaddr write_addr write_data sdata in
      (ev @ fst r, snd r))"

definition ecp3_client_main ::
    "net_env \<Rightarrow> u64 \<Rightarrow> u64 \<Rightarrow> nat \<Rightarrow> string list \<Rightarrow> program_run" where
  "ecp3_client_main e ja jd n argv = ecp3_start e ja jd argv (\<lambda>servaddr write_addr write_data sdata.
     if length argv = 2 then (blast_loop e servaddr 1 n (blast_header 0xc0 sdata), Running)
     else
     let sdata = put_all [(4, 0xc1), (5, 0xff), (6, shr8 32 write_addr), (7, shr8 24 write_addr),
           (8, shr8 16 write_addr), (9, shr8 8 write_addr), (10, shr8 0 write_addr),
           (11, shr8 0 write_data), (12, shr8 8 write_data), (13, shr8 16 write_data),
           (14, shr8 24 write_data), (15, 0x00)] sdata in
     (send_events e 0 servaddr (take (11+4+1) sdata), Exit 0))"

text \<open>The endless loops of \<open>a32.c\<close> and \<open>a64.c\<close>, \<open>n\<close> rounds from the \<open>k\<close>-th.\<close>

primrec a32_loop :: "net_env \<Rightarrow> sockaddr \<Rightarrow> nat \<Rightarrow> nat \<Rightarrow> u64 \<Rightarrow> byte list \<Rightarrow> io_event list" where
  "a32_loop e a k 0 write_data sdata = []"
| "a32_loop e a k (Suc n) write_data sdata =
     (let write_data = write_data + 1;
          sdata = put_all [(10, shr8 0 write_data), (11, shr8 8 write_data), (12, shr8 16 write_data),
            (13, shr8 24 write_data), (14, 0x00)] sdata in
      send_events e k a (take (10+4+1) sdata) @ [Usleep 1] @ a32_loop e a (k + 1) n write_data sdata)"

primrec a64_loop :: "net_env \<Rightarrow> sockaddr \<Rightarrow> nat \<Rightarrow> nat \<Rightarrow> u64 \<Rightarrow> byte list \<Rightarrow> io_event list" where
  "a64_loop e a k 0 write_data sdata = []"
| "a64_loop e a k (Suc n) write_data sdata =
     (let write_data = write_data + 1;
          sdata = put_all [(11, shr8 0 write_data), (12, shr8 8 write_data), (13, shr8 16 write_data),
            (14, shr8 24 write_data), (15, 0x00)] sdata in
      send_events e k a (take (11+4+1) sdata) @ [Usleep 1] @ a64_loop e a (k + 1) n write_data sdata)"

definition a32_main :: "net_env \<Rightarrow> u64 \<Rightarrow> u64 \<Rightarrow> nat \<Rightarrow> string list \<Rightarrow> program_run" where
  "a32_main e ja jd n argv = ecp3_start e ja jd argv (\<lambda>servaddr write_addr write_data sdata.
     if length argv = 2 then (blast_loop e servaddr 1 n (blast_header 0xd0 sdata), Running)
     else
     let sdata = put_all [(4, 0x81), (5, 0xff), (6, shr8 24 write_addr), (7, shr8 16 write_addr),
           (8, shr8 8 write_addr), (9, shr8 0 write_addr)] sdata in
     (a32_loop e servaddr 0 n write_data sdata, Running))"

definition a64_main :: "net_env \<Rightarrow> u64 \<Rightarrow> u64 \<Rightarrow> nat \<Rightarrow> string list \<Rightarrow> program_run" where
  "a64_main e ja jd n argv = ecp3_start e ja jd argv (\<lambda>servaddr write_addr write_data sdata.
     if length argv = 2 then (blast_loop e servaddr 1 n (blast_header 0xd0 sdata), Running)
     else
     let sdata = put_all [(4, 0xc1), (5, 0xff), (6, shr8 32 write_addr), (7, shr8 24 write_addr),
           (8, shr8 16 write_addr), (9, shr8 8 write_addr), (10, shr8 0 write_addr)] sdata in
     (a64_loop e servaddr 0 n write_data sdata, Running))"

section \<open>What the buffer holds\<close>

lemma length_put_all [simp]: "length (put_all xs sd) = length sd"
  by (induction xs arbitrary: sd) simp_all

lemma length_blast_fill [simp]: "length (blast_fill j m sd) = length sd"
  by (induction m) (simp_all add: Let_def)

text \<open>The bytes a fill leaves, position by position.\<close>

lemma blast_fill_nth:
  "m \<le> 16 \<Longrightarrow> length sd = 1024 \<Longrightarrow> p < 1024 \<Longrightarrow>
     blast_fill j m sd ! p =
       (if 10 \<le> p \<and> p < 10 + 4 * m then blast_byte ((p - 10) div 4 + j) ((p - 10) mod 4)
        else if 80 \<le> p \<and> p < 80 + 4 * m then blast_byte ((p - 80) div 4 + j + 1) ((p - 80) mod 4)
        else sd ! p)"
proof (induction m)
  case 0
  then show ?case by auto
next
  case (Suc m)
  consider "p < 10 + 4 * m \<or> (14 + 4 * m \<le> p \<and> p < 80 + 4 * m) \<or> 84 + 4 * m \<le> p"
    | k where "k < 4" "p = 10 + m * 4 + k" | k where "k < 4" "p = 80 + m * 4 + k"
  proof -
    have "p < 10 + 4 * m \<or> (14 + 4 * m \<le> p \<and> p < 80 + 4 * m) \<or> 84 + 4 * m \<le> p
      \<or> p - (10 + m * 4) < 4 \<and> p = 10 + m * 4 + (p - (10 + m * 4))
      \<or> p - (80 + m * 4) < 4 \<and> p = 80 + m * 4 + (p - (80 + m * 4))"
      by arith
    then show ?thesis using that by blast
  qed
  then show ?case
  proof cases
    case 1
    then have "blast_fill j (Suc m) sd ! p = blast_fill j m sd ! p"
      using Suc.prems by (elim disjE) (simp_all add: Let_def dwlen_def nth_list_update)
    with 1 Suc show ?thesis by auto
  next
    case (2 k)
    then have "k = 0 \<or> k = 1 \<or> k = 2 \<or> k = 3" by arith
    with 2 Suc.prems show ?thesis
      by (auto simp: Let_def dwlen_def nth_list_update)
  next
    case (3 k)
    then have "k = 0 \<or> k = 1 \<or> k = 2 \<or> k = 3" by arith
    with 3 Suc.prems show ?thesis
      by (auto simp: Let_def dwlen_def nth_list_update)
  qed
qed

definition blast_data :: "nat \<Rightarrow> byte list" where
  "blast_data j = map (\<lambda>p. blast_byte (p div 4 + j) (p mod 4)) [0..<64]"

text \<open>The two requests of one round.\<close>

definition blast_reqs :: "byte \<Rightarrow> nat \<Rightarrow> wr_req list" where
  "blast_reqs a6 j =
     [Wr32 0xff [a6, 0, 0, 0] (blast_data j), Wr32 0xff [0xc0, 0x00, 0x02, 0x80] (blast_data (j + 1))]"

lemma blast_reqs_ok: "\<forall>q \<in> set (blast_reqs a6 j). wr_req_ok q"
  by (simp add: blast_reqs_def wr_req_ok_def blast_data_def)

definition blast_ready :: "byte \<Rightarrow> byte list \<Rightarrow> bool" where
  "blast_ready a6 sd \<longleftrightarrow> length sd = 1024
     \<and> (\<forall>p < 10. sd ! p = [0xa1, 0x11, 0, 0, 0x90, 0xff, a6, 0, 0, 0] ! p)
     \<and> (\<forall>p < 6. sd ! (74 + p) = [0x90, 0xff, 0xc0, 0, 0x02, 0x80] ! p) \<and> sd ! 144 = 0"

lemma blast_fill_ready: "blast_ready a6 sd \<Longrightarrow> blast_ready a6 (blast_fill j dwlen sd)"
  by (simp add: blast_ready_def blast_fill_nth dwlen_def)

lemma blast_reqs_bytes:
  "write_payload (blast_reqs a6 j) =
     [0xa1, 0x11, 0, 0, 0x90, 0xff, a6, 0, 0, 0] @ blast_data j @ [0x90, 0xff, 0xc0, 0, 0x02, 0x80]
     @ blast_data (j + 1) @ [0]"
  by (simp add: write_payload_def blast_reqs_def encode_req_def cmd_byte_def blast_data_def)

lemma blast_payload:
  assumes "blast_ready a6 sd"
  shows "take 145 (blast_fill j dwlen sd) = write_payload (blast_reqs a6 j)"
proof -
  define A :: "byte list" where "A = [0xa1, 0x11, 0, 0, 0x90, 0xff, a6, 0, 0, 0]"
  define B :: "byte list" where "B = [0x90, 0xff, 0xc0, 0, 0x02, 0x80]"
  have lens: "length A = 10" "length B = 6" "\<And>j. length (blast_data j) = 64"
    by (simp_all add: A_def B_def blast_data_def)
  have ready: "length sd = 1024" "\<forall>p < 10. sd ! p = A ! p" "\<forall>p < 6. sd ! (74 + p) = B ! p" "sd ! 144 = 0"
    using assms by (simp_all add: blast_ready_def A_def B_def)
  have "take 145 (blast_fill j dwlen sd) = A @ blast_data j @ B @ blast_data (j + 1) @ [0]"
  proof (rule nth_equalityI)
    show "length (take 145 (blast_fill j dwlen sd)) = length (A @ blast_data j @ B @ blast_data (j + 1) @ [0])"
      using ready lens by simp
    fix p
    assume "p < length (take 145 (blast_fill j dwlen sd))"
    then have p: "p < 145" using ready by simp
    have fill: "take 145 (blast_fill j dwlen sd) ! p =
        (if 10 \<le> p \<and> p < 74 then blast_byte ((p - 10) div 4 + j) ((p - 10) mod 4)
         else if 80 \<le> p \<and> p < 144 then blast_byte ((p - 80) div 4 + j + 1) ((p - 80) mod 4) else sd ! p)"
      using p ready by (simp add: blast_fill_nth dwlen_def)
    consider "p < 10" | q where "p = 10 + q" "q < 64" | q where "p = 74 + q" "q < 6"
      | q where "p = 80 + q" "q < 64" | "p = 144"
    proof -
      have "p < 10 \<or> p = 10 + (p - 10) \<and> p - 10 < 64 \<or> p = 74 + (p - 74) \<and> p - 74 < 6
        \<or> p = 80 + (p - 80) \<and> p - 80 < 64 \<or> p = 144"
        using p by arith
      then show ?thesis using that by blast
    qed
    then show "take 145 (blast_fill j dwlen sd) ! p = (A @ blast_data j @ B @ blast_data (j + 1) @ [0]) ! p"
      unfolding fill using ready lens
      by cases (simp_all add: nth_append, simp_all add: blast_data_def)
  qed
  then show ?thesis by (simp add: blast_reqs_bytes A_def B_def)
qed

lemma blast_loop_datagrams:
  "blast_ready a6 sd \<Longrightarrow>
     datagrams (blast_loop e a j n sd) = map (\<lambda>i. (a, write_payload (blast_reqs a6 i))) [j..<j + n]"
proof (induction n arbitrary: j sd)
  case (Suc n)
  then show ?case
    using Suc.IH [OF blast_fill_ready [OF Suc.prems]]
    by (simp add: Let_def dwlen_def [symmetric] upt_conv_Cons del: upt_Suc)
      (simp add: dwlen_def blast_payload [OF Suc.prems, unfolded dwlen_def])
qed simp

lemma blast_header_ready:
  "blast_ready a6 (blast_header a6 (put_all [(0, 0xa1), (1, 0x11), (2, 0x00), (3, 0x00)] (replicate BUFSIZE 0)))"
proof -
  have small: "(\<forall>p < 10. P p) \<longleftrightarrow> list_all P [0..<10]" "(\<forall>p < 6. P p) \<longleftrightarrow> list_all P [0..<6]" for P :: "nat \<Rightarrow> bool"
    by (auto simp: list_all_iff)
  show ?thesis
    unfolding blast_ready_def small
    by (simp add: upt_rec blast_header_def dwlen_def BUFSIZE_def nth_list_update)
qed

section \<open>What the programs send\<close>

text \<open>The requests of the other modes: address bytes most significant first, data least significant first.\<close>

definition write64 :: "u64 \<Rightarrow> u64 \<Rightarrow> wr_req" where
  "write64 a d = Wr64 0xff (rev (to_le 5 a)) (to_le 4 d)"

definition write32 :: "u64 \<Rightarrow> u64 \<Rightarrow> wr_req" where
  "write32 a d = Wr32 0xff (rev (to_le 4 a)) (to_le 4 d)"

lemma writes_ok [simp]: "wr_req_ok (write64 a d)" "wr_req_ok (write32 a d)"
  by (simp_all add: wr_req_ok_def write64_def write32_def)

lemma to_le_45:
  "to_le 4 w = [byte_at 0 w, byte_at 1 w, byte_at 2 w, byte_at 3 w]"
  "to_le 5 w = [byte_at 0 w, byte_at 1 w, byte_at 2 w, byte_at 3 w, byte_at 4 w]"
  by (simp_all add: to_le_def upt_rec eval_nat_numeral)

lemma write_bytes:
  "write_payload [write64 a d] = [0xa1, 0x11, 0, 0, 0xc1, 0xff, byte_at 4 a, byte_at 3 a, byte_at 2 a,
     byte_at 1 a, byte_at 0 a, byte_at 0 d, byte_at 1 d, byte_at 2 d, byte_at 3 d, 0]"
  "write_payload [write32 a d] = [0xa1, 0x11, 0, 0, 0x81, 0xff, byte_at 3 a, byte_at 2 a,
     byte_at 1 a, byte_at 0 a, byte_at 0 d, byte_at 1 d, byte_at 2 d, byte_at 3 d, 0]"
  by (simp_all add: write_payload_def write64_def write32_def encode_req_def cmd_byte_def to_le_45)

lemma take_put_all: "take n (put_all xs sd) = put_all xs (take n sd)"
  by (induction xs arbitrary: sd) (simp_all add: take_update_swap)

lemma take_buffer: "n \<le> 1024 \<Longrightarrow> take n (replicate BUFSIZE x) = replicate n x"
  by (simp add: BUFSIZE_def)

lemma put_after_10:
  assumes "length sd = 1024"
  shows "take 15 (put_all [(10, a), (11, b), (12, c), (13, d), (14, z)] sd) = take 10 sd @ [a, b, c, d, z]"
proof (rule nth_equalityI)
  fix p
  assume "p < length (take 15 (put_all [(10, a), (11, b), (12, c), (13, d), (14, z)] sd))"
  then have "p < 15" by simp
  then consider "p < 10" | "p = 10" | "p = 11" | "p = 12" | "p = 13" | "p = 14" by linarith
  then show "take 15 (put_all [(10, a), (11, b), (12, c), (13, d), (14, z)] sd) ! p = (take 10 sd @ [a, b, c, d, z]) ! p"
    using assms by cases (simp_all add: nth_append)
qed (use assms in simp)

lemma put_after_11:
  assumes "length sd = 1024"
  shows "take 16 (put_all [(11, a), (12, b), (13, c), (14, d), (15, z)] sd) = take 11 sd @ [a, b, c, d, z]"
proof (rule nth_equalityI)
  fix p
  assume "p < length (take 16 (put_all [(11, a), (12, b), (13, c), (14, d), (15, z)] sd))"
  then have "p < 16" by simp
  then consider "p < 11" | "p = 11" | "p = 12" | "p = 13" | "p = 14" | "p = 15" by linarith
  then show "take 16 (put_all [(11, a), (12, b), (13, c), (14, d), (15, z)] sd) ! p = (take 11 sd @ [a, b, c, d, z]) ! p"
    using assms by cases (simp_all add: nth_append)
qed (use assms in simp)

lemma a32_datagrams:
  "length sd = 1024 \<Longrightarrow>
     take 10 sd = [0xa1, 0x11, 0, 0, 0x81, 0xff, byte_at 3 a, byte_at 2 a, byte_at 1 a, byte_at 0 a] \<Longrightarrow>
     datagrams (a32_loop e to k n d sd) = map (\<lambda>i. (to, write_payload [write32 a (d + of_nat (Suc i))])) [0..<n]"
proof (induction n arbitrary: k d sd)
  case (Suc n)
  let ?d = "d + 1"
  let ?sd = "put_all [(10, byte_at 0 ?d), (11, byte_at 1 ?d), (12, byte_at 2 ?d), (13, byte_at 3 ?d), (14, 0)] sd"
  have "take 10 ?sd = take 10 sd" by simp
  with Suc have "datagrams (a32_loop e to (k + 1) n ?d ?sd) =
      map (\<lambda>i. (to, write_payload [write32 a (?d + of_nat (Suc i))])) [0..<n]"
    by (intro Suc.IH) simp_all
  then show ?case
    using put_after_10 [OF Suc.prems(1), of "byte_at 0 ?d" "byte_at 1 ?d" "byte_at 2 ?d" "byte_at 3 ?d" 0] Suc.prems(2)
    by (simp add: Let_def write_bytes upt_conv_Cons map_Suc_upt [symmetric] ac_simps
        del: upt_Suc put_all.simps)
qed simp

lemma a64_datagrams:
  "length sd = 1024 \<Longrightarrow>
     take 11 sd = [0xa1, 0x11, 0, 0, 0xc1, 0xff, byte_at 4 a, byte_at 3 a, byte_at 2 a, byte_at 1 a, byte_at 0 a] \<Longrightarrow>
     datagrams (a64_loop e to k n d sd) = map (\<lambda>i. (to, write_payload [write64 a (d + of_nat (Suc i))])) [0..<n]"
proof (induction n arbitrary: k d sd)
  case (Suc n)
  let ?d = "d + 1"
  let ?sd = "put_all [(11, byte_at 0 ?d), (12, byte_at 1 ?d), (13, byte_at 2 ?d), (14, byte_at 3 ?d), (15, 0)] sd"
  have "take 11 ?sd = take 11 sd" by simp
  with Suc have "datagrams (a64_loop e to (k + 1) n ?d ?sd) =
      map (\<lambda>i. (to, write_payload [write64 a (?d + of_nat (Suc i))])) [0..<n]"
    by (intro Suc.IH) simp_all
  then show ?case
    using put_after_11 [OF Suc.prems(1), of "byte_at 0 ?d" "byte_at 1 ?d" "byte_at 2 ?d" "byte_at 3 ?d" 0] Suc.prems(2)
    by (simp add: Let_def write_bytes upt_conv_Cons map_Suc_upt [symmetric] ac_simps
        del: upt_Suc put_all.simps)
qed simp

text \<open>A run that gets as far as its socket, and the buffer it starts with.\<close>

definition runs :: "net_env \<Rightarrow> string list \<Rightarrow> bool" where
  "runs e argv \<longleftrightarrow> 2 \<le> length argv \<and> length (argv ! 1) < 256 \<and> 0 \<le> socket_ret e"

definition start_buffer :: "byte list" where
  "start_buffer = put_all [(0, 0xa1), (1, 0x11), (2, 0x00), (3, 0x00)] (replicate BUFSIZE 0)"

definition arg_or :: "u64 \<Rightarrow> string list \<Rightarrow> nat \<Rightarrow> u64" where
  "arg_or junk argv i = (if i < length argv then strtol_0 (argv ! i) else junk)"

lemma start_run:
  "runs e argv \<Longrightarrow>
     datagrams (fst (ecp3_start e ja jd argv rest)) =
       datagrams (fst (rest (peer_addr e SERV_PORT (argv ! 1)) (arg_or ja argv 2) (arg_or jd argv 3) start_buffer))
     \<and> snd (ecp3_start e ja jd argv rest) =
       snd (rest (peer_addr e SERV_PORT (argv ! 1)) (arg_or ja argv 2) (arg_or jd argv 3) start_buffer)"
  by (simp add: ecp3_start_def runs_def strcpy_into_def arg_or_def start_buffer_def Let_def)

lemma length_start_buffer [simp]: "length start_buffer = 1024"
  by (simp add: start_buffer_def BUFSIZE_def)

lemma take_start_buffer: "4 \<le> n \<Longrightarrow> n \<le> 1024 \<Longrightarrow> take n start_buffer = [0xa1, 0x11, 0, 0] @ replicate (n - 4) 0"
proof -
  assume n: "4 \<le> n" "n \<le> 1024"
  then have "n = Suc (Suc (Suc (Suc (n - 4))))" by arith
  then have "replicate n (0 :: byte) = 0 # 0 # 0 # 0 # replicate (n - 4) 0" by (metis replicate_Suc)
  then show ?thesis
    using n unfolding start_buffer_def take_put_all by (simp add: BUFSIZE_def)
qed

lemma replicate_num: "replicate (numeral k) x = x # replicate (pred_numeral k) x"
  by (simp add: numeral_eq_Suc)

lemma client_payload:
  "take 16 (put_all [(4, 0xc1), (5, 0xff), (6, byte_at 4 a), (7, byte_at 3 a), (8, byte_at 2 a),
      (9, byte_at 1 a), (10, byte_at 0 a), (11, byte_at 0 d), (12, byte_at 1 d), (13, byte_at 2 d),
      (14, byte_at 3 d), (15, 0x00)] start_buffer) = write_payload [write64 a d]"
  unfolding take_put_all by (simp add: take_start_buffer write_bytes replicate_num)

lemma a32_head:
  "take 10 (put_all [(4, 0x81), (5, 0xff), (6, byte_at 3 a), (7, byte_at 2 a), (8, byte_at 1 a),
      (9, byte_at 0 a)] start_buffer) =
    [0xa1, 0x11, 0, 0, 0x81, 0xff, byte_at 3 a, byte_at 2 a, byte_at 1 a, byte_at 0 a]"
  unfolding take_put_all by (simp add: take_start_buffer replicate_num)

lemma a64_head:
  "take 11 (put_all [(4, 0xc1), (5, 0xff), (6, byte_at 4 a), (7, byte_at 3 a), (8, byte_at 2 a),
      (9, byte_at 1 a), (10, byte_at 0 a)] start_buffer) =
    [0xa1, 0x11, 0, 0, 0xc1, 0xff, byte_at 4 a, byte_at 3 a, byte_at 2 a, byte_at 1 a, byte_at 0 a]"
  unfolding take_put_all by (simp add: take_start_buffer replicate_num)

text \<open>The modes of the three programs.\<close>

lemma ecp3_client_run:
  assumes "runs e argv" and "length argv \<noteq> 2"
  shows "datagrams (fst (ecp3_client_main e ja jd n argv)) =
      [(peer_addr e SERV_PORT (argv ! 1), write_payload [write64 (arg_or ja argv 2) (arg_or jd argv 3)])]"
    and "snd (ecp3_client_main e ja jd n argv) = Exit 0"
  using start_run [OF assms(1), of ja jd] assms(2) client_payload
  by (simp_all add: ecp3_client_main_def Let_def del: put_all.simps)

lemma a32_run:
  assumes "runs e argv" and "length argv \<noteq> 2"
  shows "datagrams (fst (a32_main e ja jd n argv)) =
      map (\<lambda>i. (peer_addr e SERV_PORT (argv ! 1),
        write_payload [write32 (arg_or ja argv 2) (arg_or jd argv 3 + of_nat (Suc i))])) [0..<n]"
    and "snd (a32_main e ja jd n argv) = Running"
  using start_run [OF assms(1), of ja jd] assms(2) a32_datagrams [OF _ a32_head]
  by (simp_all add: a32_main_def Let_def del: put_all.simps)

lemma a64_run:
  assumes "runs e argv" and "length argv \<noteq> 2"
  shows "datagrams (fst (a64_main e ja jd n argv)) =
      map (\<lambda>i. (peer_addr e SERV_PORT (argv ! 1),
        write_payload [write64 (arg_or ja argv 2) (arg_or jd argv 3 + of_nat (Suc i))])) [0..<n]"
    and "snd (a64_main e ja jd n argv) = Running"
  using start_run [OF assms(1), of ja jd] assms(2) a64_datagrams [OF _ a64_head]
  by (simp_all add: a64_main_def Let_def del: put_all.simps)

lemma blast_run:
  assumes "runs e argv" and "length argv = 2"
  shows "datagrams (fst (ecp3_client_main e ja jd n argv)) =
      map (\<lambda>i. (peer_addr e SERV_PORT (argv ! 1), write_payload (blast_reqs 0xc0 i))) [1..<1 + n]"
    and "datagrams (fst (a32_main e ja jd n argv)) =
      map (\<lambda>i. (peer_addr e SERV_PORT (argv ! 1), write_payload (blast_reqs 0xd0 i))) [1..<1 + n]"
    and "datagrams (fst (a64_main e ja jd n argv)) =
      map (\<lambda>i. (peer_addr e SERV_PORT (argv ! 1), write_payload (blast_reqs 0xd0 i))) [1..<1 + n]"
  using start_run [OF assms(1), of ja jd] assms(2)
    blast_loop_datagrams [OF blast_header_ready [folded start_buffer_def], of e _ 1 n]
  by (simp_all add: ecp3_client_main_def a32_main_def a64_main_def Let_def)

section \<open>Properties\<close>

text \<open>
  What the board makes of every datagram of a run, whatever the rest of the frame that carries it:
  addresses, header fields, and the trailer of padding and checksum, up to 4096 bytes in all (an
  Ethernet frame has 1518).
\<close>

definition board_receives :: "(sockaddr \<times> byte list) list \<Rightarrow> wr_req list list \<Rightarrow> bool" where
  "board_receives ds rs \<longleftrightarrow> list_all2 (\<lambda>d qs. \<forall>macs ip_head ip_rest udp_rest trailer s.
     frame_parts_ok macs ip_head ip_rest udp_rest \<longrightarrow> 42 + length (snd d) + length trailer \<le> 4096 \<longrightarrow>
     srv_status s = SRV_IDLE \<longrightarrow> counter s = 0 \<longrightarrow>
       (let r = srv_frame (udp_frame macs ip_head ip_rest udp_rest (wire_port (fst d)) (snd d) @ trailer) s in
        snd r = concat (map mst_words qs) \<and> srv_status (fst r) = SRV_IDLE \<and> counter (fst r) = 0)) ds rs"

lemma board_receives_map:
  "\<forall>i \<in> set is. \<forall>q \<in> set (f i). wr_req_ok q \<Longrightarrow>
     board_receives (map (\<lambda>i. (peer_addr e SERV_PORT name, write_payload (f i))) is) (map f is)"
  by (auto simp: board_receives_def list_all2_map1 list_all2_map2 list_all2_same Let_def SERV_PORT_def
      accepted_frame)

text \<open>
  Property C30: a 64-bit write from the command line reaches the ECP3 board.  Run with an address and
  a value in hexadecimal, \<open>ipnuma_client\<close> sends one datagram and exits, and from any frame that
  carries it, with its padding and checksum, the board queues exactly the write of the value's low
  32 bits, all bytes enabled, to the low 40 bits of the address, and is ready for the next frame.
\<close>

theorem ecp3_write_delivered:
  assumes "runs e argv" and "length argv = 4" and "argv ! 2 = ''0x'' @ hex_digits a"
    and "argv ! 3 = ''0x'' @ hex_digits d" and "a < 2 ^ 63" and "d < 2 ^ 63"
  shows "board_receives (datagrams (fst (ecp3_client_main e ja jd n argv)))
      [[Wr64 0xff (rev (to_le 5 (of_nat a :: u64))) (to_le 4 (of_nat d :: u64))]]
    \<and> snd (ecp3_client_main e ja jd n argv) = Exit 0"
proof -
  have arg: "arg_or ja argv 2 = of_nat a" "arg_or jd argv 3 = of_nat d"
    unfolding arg_or_def assms(3,4) using assms(2,5,6) by (simp_all add: strtol_hex [simplified])
  then show ?thesis
    using ecp3_client_run [OF assms(1), of ja jd n] assms(2)
      board_receives_map [of "[()]" "\<lambda>_. [write64 (of_nat a) (of_nat d)]" e "argv ! 1"]
    by (simp flip: write64_def)
qed

definition example_net :: net_env where
  "example_net = \<lparr>inet_aton = (\<lambda>_. Some 0x0100a8c0), socket_ret = 3, sendto_ret = (\<lambda>_. 0)\<rparr>"

lemma example_runs: "runs example_net (prog # ''192.168.0.1'' # args)"
  by (simp add: runs_def example_net_def)

theorem ecp3_write_delivered_witness:
  "board_receives (datagrams (fst (ecp3_client_main example_net 7 8 0
       [''ipnuma_client'', ''192.168.0.1'', ''0xd0000000'', ''0x12345678''])))
     [[Wr64 0xff [0x00, 0xd0, 0x00, 0x00, 0x00] [0x78, 0x56, 0x34, 0x12]]]"
proof -
  have hex: "''0xd0000000'' = ''0x'' @ hex_digits 0xd0000000" "''0x12345678'' = ''0x'' @ hex_digits 0x12345678"
    by (simp_all add: hex_digits.simps hex_char_def char_of_def bit_iff_odd)
  have bytes: "rev (to_le 5 (0xd0000000 :: u64)) = [0x00, 0xd0, 0x00, 0x00, 0x00]"
    "to_le 4 (0x12345678 :: u64) = [0x78, 0x56, 0x34, 0x12]"
    by (simp_all add: load_simps)
  show ?thesis
    using ecp3_write_delivered [of example_net "[''ipnuma_client'', ''192.168.0.1'', ''0xd0000000'', ''0x12345678'']"
        "0xd0000000" "0x12345678" 7 8 0, OF example_runs]
    by (simp add: hex bytes)
qed

text \<open>
  Property C31: the endless writers deliver a counter.  For any number of rounds, from the
  frames that carry the datagrams, with their padding and checksums, the board queues in order the
  writes of the start value plus 1, 2, 3, ... to the one address: 32-bit requests for \<open>a32\<close>, 64-bit
  requests for \<open>a64\<close>.
\<close>

theorem ecp3_streams_delivered:
  assumes "runs e argv" and "length argv \<noteq> 2"
  shows "board_receives (datagrams (fst (a32_main e ja jd n argv)))
      (map (\<lambda>i. [write32 (arg_or ja argv 2) (arg_or jd argv 3 + of_nat (Suc i))]) [0..<n])
    \<and> board_receives (datagrams (fst (a64_main e ja jd n argv)))
      (map (\<lambda>i. [write64 (arg_or ja argv 2) (arg_or jd argv 3 + of_nat (Suc i))]) [0..<n])"
  unfolding a32_run [OF assms] a64_run [OF assms] by (intro conjI board_receives_map; simp)

theorem ecp3_streams_delivered_witness:
  "board_receives (datagrams (fst (a32_main example_net 7 8 2 [''a32'', ''192.168.0.1'', ''0xd0000000'', ''16''])))
     [[Wr32 0xff [0xd0, 0, 0, 0] [17, 0, 0, 0]], [Wr32 0xff [0xd0, 0, 0, 0] [18, 0, 0, 0]]]"
proof -
  have num: "strtol_0 ''0xd0000000'' = 0xd0000000" "strtol_0 ''16'' = 16"
    by (simp_all add: strtol_0_def sign_of_def c_isspace_def magnitude_0_def digit_val_def)
  have reqs: "write32 0xd0000000 17 = Wr32 0xff [0xd0, 0, 0, 0] [17, 0, 0, 0]"
    "write32 0xd0000000 18 = Wr32 0xff [0xd0, 0, 0, 0] [18, 0, 0, 0]"
    by (simp_all add: write32_def load_simps)
  have two: "[0..<2] = [0, 1 :: nat]" by (simp add: upt_rec)
  show ?thesis
    using ecp3_streams_delivered [of example_net "[''a32'', ''192.168.0.1'', ''0xd0000000'', ''16'']" 7 8 2, OF example_runs]
    by (simp add: arg_or_def num reqs two)
qed

text \<open>
  Property C32: without an address the programs blast.  Each datagram carries two requests of sixteen double
  words, and the board queues both completely in every round, whatever padding and checksum follow.
  The addresses are those of the bytes the code stores, not of the comments beside them, which give
  \<open>0xD0000000\<close> for each: the first request goes to \<open>0xc0000000\<close> in \<open>ipnuma_client.c\<close> (line 68) and to
  \<open>0xd0000000\<close> in \<open>a32.c\<close> and \<open>a64.c\<close>, the second to \<open>0xc0000280\<close> in all three (line 76).
\<close>

theorem ecp3_blast_delivered:
  assumes "runs e argv" and "length argv = 2"
  shows "board_receives (datagrams (fst (ecp3_client_main e ja jd n argv))) (map (blast_reqs 0xc0) [1..<1 + n])
    \<and> board_receives (datagrams (fst (a32_main e ja jd n argv))) (map (blast_reqs 0xd0) [1..<1 + n])
    \<and> board_receives (datagrams (fst (a64_main e ja jd n argv))) (map (blast_reqs 0xd0) [1..<1 + n])"
  unfolding blast_run [OF assms] by (intro conjI board_receives_map ballI) (use blast_reqs_ok in blast)+

theorem ecp3_blast_delivered_witness:
  "board_receives (datagrams (fst (a64_main example_net 7 8 3 [''a64'', ''192.168.0.1'']))) (map (blast_reqs 0xd0) [1..<4])"
  using ecp3_blast_delivered [of example_net "[''a64'', ''192.168.0.1'']" 7 8 3, OF example_runs]
  by simp



text \<open>
  How a client ends before it sends.  Too few arguments print the usage; a destination
  of 256 characters or more overflows the stack buffer it is copied to; a socket that cannot be
  had is reported; in none of these cases is a datagram sent.
\<close>

lemma ecp3_client_early_ends:
  "(length argv < 2 \<longrightarrow> datagrams (fst (ecp3_start e ja jd argv rest)) = [] \<and> snd (ecp3_start e ja jd argv rest) = Exit (-1))
   \<and> (2 \<le> length argv \<and> 256 \<le> length (argv ! 1) \<longrightarrow> ecp3_start e ja jd argv rest = ([], Overflow))
   \<and> (2 \<le> length argv \<and> length (argv ! 1) < 256 \<and> socket_ret e < 0 \<longrightarrow>
        datagrams (fst (ecp3_start e ja jd argv rest)) = [] \<and> snd (ecp3_start e ja jd argv rest) = Exit 1)"
  by (simp add: ecp3_start_def strcpy_into_def Let_def)


end
