(* ===== verification/Kc705_Rx.thy ===== *)
theory Kc705_Rx
  imports Ecp3_Server
begin

text \<open>
  The receiving side of the KC705 board, \<open>boards/kc705/rtl/pcie/XGMII_RX_ENGINE.v\<close> as it is built
  without \<open>ORF\<close>: it takes the first 24 bytes after the magic of a program's datagram and hands
  them to the PCI Express core as one packet, whose length it reads from its first double word.
  One step is one clock with eight bytes of the frame.
\<close>

section \<open>The frame filter\<close>

datatype rx_state = RX_IDLE | RX_HEAD | RX_TLP1 | RX_TLP2 | RX_TLP3

definition MAGIC_CODE :: u32 where
  "MAGIC_CODE = 0xbe9be955"

record rx =
  rx_state :: rx_state
  rx_count :: u16
  rx_type :: u16
  rx_protocol :: byte
  rx_dport :: u16
  rx_tlp1 :: u64
  rx_tlp2 :: u64

text \<open>
  One clock: \<open>c\<close> is \<open>xgmii_rxc\<close> and \<open>d\<close> is \<open>xgmii_rxd\<close>.  The second component is the packet buffer
  when \<open>tlp_frame_end\<close> is set.
\<close>

definition rx_head :: "byte \<Rightarrow> u64 \<Rightarrow> rx \<Rightarrow> rx" where
  "rx_head c d s =
     (let s1 = s\<lparr>rx_count := rx_count s + 8\<rparr>;
          s1 = (if c = 0xff then s1\<lparr>rx_state := RX_IDLE\<rparr> else s1);
          k = rx_count s in
      if k = 0x08 then s1\<lparr>rx_type := put_bits 7 0 (get_bits 47 40 d :: byte)
        (put_bits 15 8 (get_bits 39 32 d :: byte) (rx_type s1))\<rparr>
      else if k = 0x10 then s1\<lparr>rx_protocol := get_bits 63 56 d\<rparr>
      else if k = 0x20 then s1\<lparr>rx_dport := put_bits 7 0 (get_bits 47 40 d :: byte)
        (put_bits 15 8 (get_bits 39 32 d :: byte) (rx_dport s1))\<rparr>
      else if k = 0x28 then
        (if rx_type s = 0x0800 \<and> rx_protocol s = 0x11 \<and> rx_dport s = 3422
           \<and> cat32 (get_bits 23 16 d) (get_bits 31 24 d) (get_bits 39 32 d) (get_bits 47 40 d) = MAGIC_CODE
         then s1\<lparr>rx_state := RX_TLP1\<rparr> else s1)
      else s1)"

definition rx_step :: "byte \<times> u64 \<Rightarrow> rx \<Rightarrow> rx \<times> (u64 \<times> u64 \<times> u64) list" where
  "rx_step cd s =
     (case cd of (c, d) \<Rightarrow>
      case rx_state s of
        RX_IDLE \<Rightarrow>
          (let s1 = s\<lparr>rx_count := 0\<rparr> in
           (if bit c 0 \<and> get_bits 7 0 d = (0xfb :: byte) then s1\<lparr>rx_state := RX_HEAD\<rparr> else s1, []))
      | RX_HEAD \<Rightarrow> (rx_head c d s, [])
      | RX_TLP1 \<Rightarrow> (s\<lparr>rx_tlp1 := d, rx_state := RX_TLP2\<rparr>, [])
      | RX_TLP2 \<Rightarrow> (s\<lparr>rx_tlp2 := d, rx_state := RX_TLP3\<rparr>, [])
      | RX_TLP3 \<Rightarrow> (s\<lparr>rx_state := RX_IDLE\<rparr>, [(rx_tlp1 s, rx_tlp2 s, d)]))"

fun rx_run :: "(byte \<times> u64) list \<Rightarrow> rx \<Rightarrow> rx \<times> (u64 \<times> u64 \<times> u64) list" where
  "rx_run [] s = (s, [])"
| "rx_run (w # ws) s =
     (case rx_step w s of (t, ps) \<Rightarrow> case rx_run ws t of (u, qs) \<Rightarrow> (u, ps @ qs))"

lemma rx_run_silent: "rx_run xs s = (t, []) \<Longrightarrow> rx_run (xs @ ys) s = rx_run ys t"
proof -
  have "rx_run (xs @ ys) s = (case rx_run xs s of (t, ws) \<Rightarrow> case rx_run ys t of (u, vs) \<Rightarrow> (u, ws @ vs))"
    by (induction xs arbitrary: s) (simp_all split: prod.splits)
  then show "rx_run xs s = (t, []) \<Longrightarrow> rx_run (xs @ ys) s = rx_run ys t" by simp
qed

section \<open>Handing the packet to the core\<close>

text \<open>
  The beats on \<open>s_axis_tx\<close>: data, byte enables and the mark of the last beat.  \<open>n\<close> is the register
  \<open>len\<close>, in ten bits.
\<close>

type_synonym beat = "u64 \<times> byte \<times> bool"

definition tlp_len :: "u64 \<Rightarrow> 10 word" where
  "tlp_len t = (if bit t 30 then get_bits 9 0 t else 0) - 1 + (if bit t 29 then 1 else 0)"

definition orf_last :: "u64 \<Rightarrow> 10 word \<Rightarrow> beat option" where
  "orf_last d n = (if n = 0 then Some (d, 0xff, True) else if n = 1023 then Some (d, 0x0f, True) else None)"

definition orf_beats :: "u64 \<Rightarrow> u64 \<Rightarrow> u64 \<Rightarrow> beat list" where
  "orf_beats t1 t2 t3 =
     (let n = tlp_len t1 in
      (t1, 0xff, False) #
      (case orf_last t2 n of
         Some b \<Rightarrow> [b]
       | None \<Rightarrow>
           (t2, 0xff, False) #
           (case orf_last t3 (n - 2) of Some b \<Rightarrow> [b] | None \<Rightarrow> [(t3, 0xff, False)])))"

text \<open>The double words a run of beats delivers, and whether it is one complete packet.\<close>

definition low_dw :: "u64 \<Rightarrow> u32" where
  "low_dw w = ucast w"

definition high_dw :: "u64 \<Rightarrow> u32" where
  "high_dw w = ucast (drop_bit 32 w)"

definition beat_dws :: "beat list \<Rightarrow> u32 list" where
  "beat_dws bs = concat (map (\<lambda>(d, keep, _). if keep = 0x0f then [low_dw d] else [low_dw d, high_dw d]) bs)"

definition complete :: "beat list \<Rightarrow> bool" where
  "complete bs \<longleftrightarrow> bs \<noteq> [] \<and> (\<forall>i < length bs. snd (snd (bs ! i)) = (i = length bs - 1))"

section \<open>A frame through the filter\<close>

text \<open>The eight bytes of clock \<open>k\<close> of a frame, and the clocks of a frame after its start word.\<close>

definition chunk :: "nat \<Rightarrow> byte list \<Rightarrow> u64" where
  "chunk k fs = of_le (take 8 (drop (8 * k) fs))"

definition xgmii :: "u64 \<Rightarrow> byte list \<Rightarrow> byte \<Rightarrow> byte \<Rightarrow> byte \<Rightarrow> (byte \<times> u64) list" where
  "xgmii preamble fs c6 c7 c8 =
     [(1, preamble), (0, chunk 0 fs), (0, chunk 1 fs), (0, chunk 2 fs), (0, chunk 3 fs), (0, chunk 4 fs),
      (0, chunk 5 fs), (c6, chunk 6 fs), (c7, chunk 7 fs), (c8, chunk 8 fs)]"

lemma get_byte_at:
  "get_bits (8 * j + 7) (8 * j) w = byte_at j w"
  by (rule bit_eqI) (auto simp: bit_get bit_byte_at)

lemmas get_bytes =
  get_byte_at [of 0, simplified] get_byte_at [of 1, simplified] get_byte_at [of 2, simplified]
  get_byte_at [of 3, simplified] get_byte_at [of 4, simplified] get_byte_at [of 5, simplified]
  get_byte_at [of 6, simplified] get_byte_at [of 7, simplified]

lemma chunk_byte: "8 * k + 8 \<le> length fs \<Longrightarrow> j < 8 \<Longrightarrow> byte_at j (chunk k fs) = fs ! (8 * k + j)"
  by (simp add: chunk_def byte_at_of_le)

definition rx_accepts :: "byte list \<Rightarrow> bool" where
  "rx_accepts fs \<longleftrightarrow> fs ! 12 = 0x08 \<and> fs ! 13 = 0x00 \<and> fs ! 23 = 0x11 \<and> fs ! 36 = 0x0d \<and> fs ! 37 = 0x5e
     \<and> fs ! 42 = 0xbe \<and> fs ! 43 = 0x9b \<and> fs ! 44 = 0xe9 \<and> fs ! 45 = 0x55"

lemma be16_iff: "(of_be [a, b] :: u16) = of_be [c, d] \<longleftrightarrow> a = c \<and> b = d"
proof -
  have "to_le 2 (of_be [a, b] :: u16) = [b, a]" for a b
    using to_le_of_le [of "[b, a]", where ?'a = 16] by (simp add: of_be_def numeral_2_eq_2 del: of_le.simps)
  then show ?thesis by (metis list.inject)
qed

lemma cat32_iff: "cat32 a b c d = cat32 a' b' c' d' \<longleftrightarrow> a = a' \<and> b = b' \<and> c = c' \<and> d = d'"
  by (metis get_cat32)

lemma rx_head_moves:
  "rx_count (rx_head c d t) = rx_count t + 8"
  "rx_count t \<noteq> 40 \<Longrightarrow> rx_state (rx_head c d t) = (if c = 0xff then RX_IDLE else rx_state t)"
  by (simp_all add: rx_head_def Let_def)

lemma rx_filter:
  assumes len: "72 \<le> length fs" and start: "get_bits 7 0 preamble = (0xfb :: byte)"
    and s: "rx_state s = RX_IDLE"
  shows "rx_accepts fs \<Longrightarrow> snd (rx_run (xgmii preamble fs c6 c7 c8) s) = [(chunk 6 fs, chunk 7 fs, chunk 8 fs)]"
    and "rx_accepts fs \<Longrightarrow> rx_state (fst (rx_run (xgmii preamble fs c6 c7 c8) s)) = RX_IDLE"
    and "\<not> rx_accepts fs \<Longrightarrow> snd (rx_run (xgmii preamble fs c6 c7 c8) s) = []"
proof -
  define s1 where "s1 = fst (rx_run [(1, preamble), (0, chunk 0 fs)] s)"
  have r1: "rx_run [(1, preamble), (0, chunk 0 fs)] s = (s1, [])"
    and s1: "rx_state s1 = RX_HEAD" "rx_count s1 = 8"
    using s start by (simp_all add: s1_def rx_step_def rx_head_def Let_def)
  define s2 where "s2 = fst (rx_run [(0, chunk 1 fs), (0, chunk 2 fs)] s1)"
  have r2: "rx_run [(0, chunk 1 fs), (0, chunk 2 fs)] s1 = (s2, [])"
    and s2: "rx_state s2 = RX_HEAD" "rx_count s2 = 24" "rx_type s2 = of_be [fs ! 12, fs ! 13]"
      "rx_protocol s2 = fs ! 23"
    using s1 len by (simp_all add: s2_def rx_step_def rx_head_def Let_def get_bytes chunk_byte put_all_16)
  define s3 where "s3 = fst (rx_run [(0, chunk 3 fs), (0, chunk 4 fs)] s2)"
  have r3: "rx_run [(0, chunk 3 fs), (0, chunk 4 fs)] s2 = (s3, [])"
    and s3: "rx_state s3 = RX_HEAD" "rx_count s3 = 40" "rx_type s3 = of_be [fs ! 12, fs ! 13]"
      "rx_protocol s3 = fs ! 23" "rx_dport s3 = of_be [fs ! 36, fs ! 37]"
    using s2 len by (simp_all add: s3_def rx_step_def rx_head_def Let_def get_bytes chunk_byte put_all_16)
  define s4 where "s4 = fst (rx_run [(0, chunk 5 fs)] s3)"
  have eqs: "(0x0800 :: u16) = of_be [0x08, 0x00]" "(3422 :: u16) = of_be [0x0d, 0x5e]"
    "MAGIC_CODE = cat32 0xbe 0x9b 0xe9 0x55"
    by (simp_all add: of_be_def MAGIC_CODE_def cat32_def)
  have r4: "rx_run [(0, chunk 5 fs)] s3 = (s4, [])"
    and s4: "rx_state s4 = (if rx_accepts fs then RX_TLP1 else RX_HEAD)" "rx_count s4 = 48"
    using s3 len unfolding rx_accepts_def
    by (simp_all add: s4_def rx_step_def rx_head_def Let_def get_bytes chunk_byte eqs be16_iff cat32_iff)
  have split: "xgmii preamble fs c6 c7 c8 = [(1, preamble), (0, chunk 0 fs)] @ [(0, chunk 1 fs), (0, chunk 2 fs)]
      @ [(0, chunk 3 fs), (0, chunk 4 fs)] @ [(0, chunk 5 fs)] @ [(c6, chunk 6 fs), (c7, chunk 7 fs), (c8, chunk 8 fs)]"
    by (simp add: xgmii_def)
  have run: "rx_run (xgmii preamble fs c6 c7 c8) s =
      rx_run [(c6, chunk 6 fs), (c7, chunk 7 fs), (c8, chunk 8 fs)] s4"
    unfolding split
    by (simp only: rx_run_silent [OF r1] rx_run_silent [OF r2] rx_run_silent [OF r3] rx_run_silent [OF r4])
  show "snd (rx_run (xgmii preamble fs c6 c7 c8) s) = [(chunk 6 fs, chunk 7 fs, chunk 8 fs)]"
    and "rx_state (fst (rx_run (xgmii preamble fs c6 c7 c8) s)) = RX_IDLE" if "rx_accepts fs"
    using s4 that unfolding run by (simp_all add: rx_step_def)
  show "snd (rx_run (xgmii preamble fs c6 c7 c8) s) = []" if "\<not> rx_accepts fs"
  proof -
    have quiet: "snd (rx_step w t) = []" if "rx_state t = RX_IDLE \<or> rx_state t = RX_HEAD" for w t
      using that by (auto simp: rx_step_def Let_def split: prod.splits)
    have stay: "(rx_state (fst (rx_step w t)) = RX_IDLE \<or> rx_state (fst (rx_step w t)) = RX_HEAD)
        \<and> rx_count (fst (rx_step w t)) \<in> {0, rx_count t + 8}"
      if "(rx_state t = RX_IDLE \<or> rx_state t = RX_HEAD) \<and> rx_count t \<noteq> 40" for w t
      using that by (auto simp: rx_step_def rx_head_moves Let_def split: prod.splits if_splits)
    define t6 where "t6 = fst (rx_step (c6, chunk 6 fs) s4)"
    define t7 where "t7 = fst (rx_step (c7, chunk 7 fs) t6)"
    have s4': "(rx_state s4 = RX_IDLE \<or> rx_state s4 = RX_HEAD) \<and> rx_count s4 \<noteq> 40"
      using s4 that by simp
    have t6: "(rx_state t6 = RX_IDLE \<or> rx_state t6 = RX_HEAD) \<and> rx_count t6 \<noteq> 40" "rx_count t6 \<in> {0, 56}"
      using stay [OF s4', of "(c6, chunk 6 fs)"] s4 by (auto simp: t6_def)
    have t7: "rx_state t7 = RX_IDLE \<or> rx_state t7 = RX_HEAD"
      using stay [OF t6(1), of "(c7, chunk 7 fs)"] by (simp add: t7_def)
    show ?thesis
      unfolding run using quiet [of s4] quiet [of t6] quiet [of t7] s4' t6 t7
      by (simp add: t6_def t7_def case_prod_beta)
  qed
qed

section \<open>Programs' frames\<close>

lemma udp_frame_nth:
  assumes "frame_parts_ok macs ip_head ip_rest udp_rest"
  shows "udp_frame macs ip_head ip_rest udp_rest port payload ! 12 = 0x08"
    and "udp_frame macs ip_head ip_rest udp_rest port payload ! 13 = 0x00"
    and "udp_frame macs ip_head ip_rest udp_rest port payload ! 23 = 0x11"
    and "udp_frame macs ip_head ip_rest udp_rest port payload ! 36 = byte_at 1 port"
    and "udp_frame macs ip_head ip_rest udp_rest port payload ! 37 = byte_at 0 port"
    and "udp_frame macs ip_head ip_rest udp_rest port payload ! (42 + i) = payload ! i"
    and "length (udp_frame macs ip_head ip_rest udp_rest port payload) = 42 + length payload"
  using assms by (simp_all add: udp_frame_def frame_parts_ok_def nth_append)

end
