(* ===== verification/Kc705_Client.thy ===== *)
theory Kc705_Client
  imports Ecp3_Client Kc705_Rx
begin

text \<open>
  The client of the KC705 board, \<open>software/kc705_test/ipnuma_client.c\<close>: it builds one PCI Express
  packet, a memory read or write with a header of three or four double words and one or two of
  data, and sends it after the magic.
\<close>

section \<open>Building the packet\<close>

definition first_dw :: "int \<Rightarrow> u32" where
  "first_dw mode =
     (if mode = 0 then 0x40000001 else if mode = 1 then 0x40000002
      else if mode = 2 then 0x60000001 else if mode = 3 then 0x60000002
      else if mode = 4 then 0x00000001 else if mode = 5 then 0x00000002
      else if mode = 6 then 0x20000001 else if mode = 7 then 0x20000002
      else 0x40000001)"

text \<open>\<open>tlp\<close>, with \<open>tlp_len\<close> its length; the shifts are of signed 64-bit integers, cut to \<open>int\<close>.\<close>

definition build_tlp :: "int \<Rightarrow> u64 \<Rightarrow> u64 \<Rightarrow> u32 list" where
  "build_tlp mode addr write_data =
     [first_dw mode, 0x123401ff]
     @ (if mode AND 2 \<noteq> 0 then [ucast (signed_drop_bit 32 addr)] else [])
     @ [ucast addr]
     @ (if mode < 4
        then [ucast write_data] @ (if mode AND 1 \<noteq> 0 then [ucast (signed_drop_bit 32 write_data)] else [])
        else [])"

text \<open>The copy of \<open>tlp\<close> into \<open>sdata\<close>, \<open>m\<close> rounds of it.\<close>

primrec copy_tlp :: "u32 list \<Rightarrow> nat \<Rightarrow> byte list \<Rightarrow> byte list" where
  "copy_tlp tlp 0 sd = sd"
| "copy_tlp tlp (Suc i) sd =
     put_all [(i*4+6, shr8 0 (tlp ! i)), (i*4+7, shr8 8 (tlp ! i)), (i*4+8, shr8 16 (tlp ! i)),
       (i*4+9, shr8 24 (tlp ! i))] (copy_tlp tlp i sd)"

definition kc705_packet :: "u32 list \<Rightarrow> byte list" where
  "kc705_packet tlp =
     (let sdata = put_all [(0, shr8 24 MAGIC_CODE), (1, shr8 16 MAGIC_CODE), (2, shr8 8 MAGIC_CODE),
            (3, shr8 0 MAGIC_CODE), (4, 0x00), (5, 0x00)] (replicate BUFSIZE 0);
          sdata = copy_tlp tlp (length tlp) sdata in
      take (6 + ((length tlp OR 1) * 4)) sdata)"

definition kc705_main :: "net_env \<Rightarrow> u64 \<Rightarrow> string list \<Rightarrow> program_run" where
  "kc705_main e junk_addr argv =
     (let argc = length argv in
      if argc < 2 then
        ([Stderr ''usage: [dest IP] <mode> <address> [write_data]'',
          Stderr ''mode  0:write,3DW+1DW 1:3DW+2DW 2:4DW+1DW 3:4DW+2DW'',
          Stderr ''mode  4:read,3DW+1DW 5:3DW+2DW 6:4DW+1DW 7:4DW+2DW''], Exit (-1))
      else case strcpy_into 256 (argv ! 1) of None \<Rightarrow> ([], Overflow) | Some dest_ip \<Rightarrow>
      let mode = (if argc \<ge> 3 then atoi (argv ! 2) else 0) in
      if argc \<ge> 3 \<and> (mode < 0 \<or> mode > 7) then ([Stderr ''invalid mode''], Exit (-1))
      else
      let addr = (if argc \<ge> 4 then strtol_0 (argv ! 3) else junk_addr);
          ev = (if argc \<ge> 4 then [Stdout ''mode=%d, addr=%16llx'' [word_of_int mode, addr]] else []);
          write_data = (if argc \<ge> 5 then strtol_0 (argv ! 4) else 0xa1b2c3d4);
          ev = ev @ (if argc \<ge> 5 then [Stdout '', write_data=%16llx'' [write_data]] else []) @ [Stdout ''\<newline>'' []];
          servaddr = peer_addr e SERV_PORT dest_ip in
      if socket_ret e < 0 then (ev @ [Perror ''socket()''], Exit 1)
      else (ev @ send_events e 0 servaddr (kc705_packet (build_tlp mode addr write_data)), Exit 0))"

section \<open>The bytes of the packet\<close>

lemma length_copy_tlp [simp]: "length (copy_tlp tlp m sd) = length sd"
  by (induction m) simp_all

lemma copy_tlp_nth:
  "m \<le> length tlp \<Longrightarrow> m \<le> 6 \<Longrightarrow> length sd = 1024 \<Longrightarrow> p < 1024 \<Longrightarrow>
     copy_tlp tlp m sd ! p =
       (if 6 \<le> p \<and> p < 6 + 4 * m then byte_at ((p - 6) mod 4) (tlp ! ((p - 6) div 4)) else sd ! p)"
proof (induction m)
  case 0
  then show ?case by auto
next
  case (Suc m)
  consider "p < 6 + 4 * m \<or> 10 + 4 * m \<le> p" | k where "k < 4" "p = m * 4 + 6 + k"
  proof -
    have "p < 6 + 4 * m \<or> 10 + 4 * m \<le> p \<or> p - (m * 4 + 6) < 4 \<and> p = m * 4 + 6 + (p - (m * 4 + 6))"
      by arith
    then show ?thesis using that by blast
  qed
  then show ?case
  proof cases
    case 1
    then have "copy_tlp tlp (Suc m) sd ! p = copy_tlp tlp m sd ! p"
      using Suc.prems by (elim disjE) (simp_all add: nth_list_update)
    with 1 Suc show ?thesis by auto
  next
    case (2 k)
    then have "k = 0 \<or> k = 1 \<or> k = 2 \<or> k = 3" by arith
    with 2 Suc.prems show ?thesis by (auto simp: nth_list_update)
  qed
qed

lemma magic_put:
  "p < 6 \<Longrightarrow> put_all [(0, shr8 24 MAGIC_CODE), (1, shr8 16 MAGIC_CODE), (2, shr8 8 MAGIC_CODE),
      (3, shr8 0 MAGIC_CODE), (4, 0x00), (5, 0x00)] (replicate BUFSIZE 0) ! p = [0xbe, 0x9b, 0xe9, 0x55, 0, 0] ! p"
proof -
  assume "p < 6"
  then consider "p = 0" | "p = 1" | "p = 2" | "p = 3" | "p = 4" | "p = 5" by linarith
  then show ?thesis
    by cases (simp_all add: BUFSIZE_def nth_list_update MAGIC_CODE_def byte_at_def)
qed

lemma or_1: "n OR 1 = n + of_bool (even n)" for n :: nat
  by (rule or_one_eq)

lemma packet_length: "length tlp \<le> 6 \<Longrightarrow> length (kc705_packet tlp) = 6 + (length tlp OR 1) * 4"
  unfolding or_1 by (simp add: kc705_packet_def Let_def BUFSIZE_def or_1 [simplified])

lemma or_1_bound: "n \<le> n OR (1 :: nat)"
  unfolding or_1 by simp

lemma packet_nth:
  assumes "length tlp \<le> 6"
  shows "p < 6 \<Longrightarrow> kc705_packet tlp ! p = [0xbe, 0x9b, 0xe9, 0x55, 0, 0] ! p"
    and "i < length tlp \<Longrightarrow> k < 4 \<Longrightarrow> kc705_packet tlp ! (6 + 4 * i + k) = byte_at k (tlp ! i)"
proof -
  let ?sd = "put_all [(0, shr8 24 MAGIC_CODE), (1, shr8 16 MAGIC_CODE), (2, shr8 8 MAGIC_CODE),
      (3, shr8 0 MAGIC_CODE), (4, 0x00), (5, 0x00)] (replicate BUFSIZE 0)"
  have len: "length ?sd = 1024" by (simp add: BUFSIZE_def)
  have bound: "length tlp \<le> length tlp OR 1" by (rule or_1_bound)
  show "kc705_packet tlp ! p = [0xbe, 0x9b, 0xe9, 0x55, 0, 0] ! p" if "p < 6"
    using copy_tlp_nth [OF le_refl assms len, of p] magic_put [OF that] that
    by (simp add: kc705_packet_def Let_def del: put_all.simps)
  show "kc705_packet tlp ! (6 + 4 * i + k) = byte_at k (tlp ! i)" if "i < length tlp" "k < 4"
    using copy_tlp_nth [OF le_refl assms len, of "6 + 4 * i + k"] that assms bound
    by (simp add: kc705_packet_def Let_def del: put_all.simps)
qed

section \<open>From the bytes to the board\<close>

lemma chunk_nth: "8 * k + 8 \<le> length fs \<Longrightarrow> n < 64 \<Longrightarrow> bit (chunk k fs) n = bit (fs ! (8 * k + n div 8)) (n mod 8)"
  by (auto simp: chunk_def bit_of_le)

lemma chunk_dws:
  assumes "8 * k + 8 \<le> length fs"
  shows "\<forall>j < 4. fs ! (8 * k + j) = byte_at j v \<Longrightarrow> low_dw (chunk k fs) = v"
    and "\<forall>j < 4. fs ! (8 * k + 4 + j) = byte_at j v \<Longrightarrow> high_dw (chunk k fs) = v"
proof -
  have byte: "bit (byte_at (n div 8) v) (n mod 8) = bit v n" for n :: nat and v :: u32
    by (simp add: bit_byte_at)
  show "low_dw (chunk k fs) = v" if "\<forall>j < 4. fs ! (8 * k + j) = byte_at j v"
  proof (rule bit_eqI)
    fix n
    assume "possible_bit TYPE(32 word) n"
    then have n: "n < 32" by simp
    then have "n div 8 < 4" by auto
    with n assms that show "bit (low_dw (chunk k fs)) n = bit v n"
      by (simp add: low_dw_def bit_ucast_iff chunk_nth byte)
  qed
  show "high_dw (chunk k fs) = v" if "\<forall>j < 4. fs ! (8 * k + 4 + j) = byte_at j v"
  proof (rule bit_eqI)
    fix n
    assume "possible_bit TYPE(32 word) n"
    then have n: "n < 32" by simp
    then have d: "n div 8 < 4" by auto
    have "8 * k + (32 + n) div 8 = 8 * k + 4 + n div 8" "(32 + n) mod 8 = n mod 8" by (simp, presburger)
    with n d assms that show "bit (high_dw (chunk k fs)) n = bit v n"
      by (simp add: high_dw_def bit_simps chunk_nth byte add.assoc)
  qed
qed

lemma tlp_len_low:
  "tlp_len t = (if bit (low_dw t) 30 then get_bits 9 0 (low_dw t) else 0) - 1 + (if bit (low_dw t) 29 then 1 else 0)"
proof -
  have "(get_bits 9 0 t :: 10 word) = get_bits 9 0 (low_dw t)"
    by (rule bit_eqI) (auto simp: bit_get low_dw_def bit_simps)
  then show ?thesis by (simp add: tlp_len_def low_dw_def bit_simps)
qed

section \<open>Delivery\<close>

text \<open>The beats the board issues for a frame.\<close>

definition board_beats :: "u64 \<Rightarrow> byte list \<Rightarrow> byte \<Rightarrow> byte \<Rightarrow> byte \<Rightarrow> rx \<Rightarrow> beat list list" where
  "board_beats preamble fs c6 c7 c8 s =
     map (\<lambda>(t1, t2, t3). orf_beats t1 t2 t3) (snd (rx_run (xgmii preamble fs c6 c7 c8) s))"

text \<open>A frame on the wire: the program's datagram and what follows it (padding, checksum, idle).\<close>

definition wire_ok :: "byte list \<Rightarrow> byte list \<Rightarrow> byte list \<Rightarrow> byte list \<Rightarrow> byte list \<Rightarrow> byte list \<Rightarrow> bool" where
  "wire_ok macs ip_head ip_rest udp_rest payload tail \<longleftrightarrow>
     frame_parts_ok macs ip_head ip_rest udp_rest \<and> 72 \<le> 42 + length payload + length tail"

lemma build_tlp_length: "mode \<in> {0..7} \<Longrightarrow> length (build_tlp mode addr wd) \<in> {3..6}"
  by (simp add: build_tlp_def)

lemma modes: "(mode :: int) \<in> {0..7} \<Longrightarrow> mode = 0 \<or> mode = 1 \<or> mode = 2 \<or> mode = 3 \<or> mode = 4 \<or> mode = 5 \<or> mode = 6 \<or> mode = 7"
  by auto

text \<open>The double words of a packet sit in the three buffer words in order.\<close>

lemma frame_dws:
  assumes wire: "wire_ok macs ip_head ip_rest udp_rest (kc705_packet tlp) tail"
    and len: "length tlp \<le> 6" and "i < length tlp"
    and fs: "fs = udp_frame macs ip_head ip_rest udp_rest SERV_PORT (kc705_packet tlp) @ tail"
  shows "(if even i then low_dw (chunk (6 + i div 2) fs) else high_dw (chunk (6 + i div 2) fs)) = tlp ! i"
proof -
  have parts: "frame_parts_ok macs ip_head ip_rest udp_rest" and total: "72 \<le> length fs"
    using wire udp_frame_nth(7) by (auto simp: wire_ok_def fs)
  have plen: "length (kc705_packet tlp) = 6 + (length tlp OR 1) * 4" by (rule packet_length [OF len])
  have byte: "fs ! (48 + 4 * i + j) = byte_at j (tlp ! i)" if "j < 4" for j
  proof -
    have "6 + 4 * i + j < length (kc705_packet tlp)"
      using assms(3) that or_1_bound [of "length tlp"] plen by linarith
    then have "fs ! (42 + (6 + 4 * i + j)) = kc705_packet tlp ! (6 + 4 * i + j)"
      using udp_frame_nth(6) [OF parts, of SERV_PORT "kc705_packet tlp" "6 + 4 * i + j"]
        udp_frame_nth(7) [OF parts, of SERV_PORT "kc705_packet tlp"]
      by (simp add: fs nth_append)
    then show ?thesis using packet_nth(2) [OF len assms(3) that] by (simp add: add.assoc)
  qed
  have bound: "8 * (6 + i div 2) + 8 \<le> length fs"
  proof -
    have "i < 6" using assms(3) len by simp
    then have "i div 2 \<le> 2" by simp
    with total show ?thesis by simp
  qed
  show ?thesis
  proof (cases "even i")
    case True
    then have "8 * (6 + i div 2) = 48 + 4 * i" by auto
    then have "\<forall>j < 4. fs ! (8 * (6 + i div 2) + j) = byte_at j (tlp ! i)" using byte by metis
    with True chunk_dws(1) [OF bound, of "tlp ! i"] show ?thesis by simp
  next
    case False
    then have "8 * (6 + i div 2) + 4 = 48 + 4 * i" by presburger
    then have "\<forall>j < 4. fs ! (8 * (6 + i div 2) + 4 + j) = byte_at j (tlp ! i)" using byte by metis
    with False chunk_dws(2) [OF bound, of "tlp ! i"] show ?thesis by simp
  qed
qed

lemma frame_accepted:
  assumes wire: "wire_ok macs ip_head ip_rest udp_rest (kc705_packet tlp) tail" and len: "length tlp \<le> 6"
    and fs: "fs = udp_frame macs ip_head ip_rest udp_rest SERV_PORT (kc705_packet tlp) @ tail"
  shows "rx_accepts fs" and "72 \<le> length fs"
proof -
  have parts: "frame_parts_ok macs ip_head ip_rest udp_rest" using wire by (simp add: wire_ok_def)
  have plen: "6 \<le> length (kc705_packet tlp)" by (simp add: packet_length [OF len])
  note nth = udp_frame_nth [OF parts, of SERV_PORT "kc705_packet tlp"]
  have "fs ! (42 + i) = [0xbe, 0x9b, 0xe9, 0x55, 0, 0] ! i" if "i < 6" for i
    using that nth(6) [of i] nth(7) plen packet_nth(1) [OF len that] by (simp add: fs nth_append)
  from this [of 0] this [of 1] this [of 2] this [of 3] show "rx_accepts fs"
    using nth plen by (simp add: rx_accepts_def fs nth_append SERV_PORT_def byte_at_def)
  show "72 \<le> length fs" using wire nth(7) by (simp add: wire_ok_def fs)
qed

lemma tlp_delivered:
  assumes wire: "wire_ok macs ip_head ip_rest udp_rest (kc705_packet (build_tlp mode addr wd)) tail"
    and mode: "mode \<in> {0..7}"
    and start: "get_bits 7 0 preamble = (0xfb :: byte)" and s: "rx_state s = RX_IDLE"
  shows "\<exists>bs. board_beats preamble (udp_frame macs ip_head ip_rest udp_rest SERV_PORT
      (kc705_packet (build_tlp mode addr wd)) @ tail) c6 c7 c8 s = [bs]
    \<and> beat_dws bs = build_tlp mode addr wd \<and> complete bs"
proof -
  define tlp where "tlp = build_tlp mode addr wd"
  define fs where "fs = udp_frame macs ip_head ip_rest udp_rest SERV_PORT (kc705_packet tlp) @ tail"
  have len: "length tlp \<in> {3..6}" unfolding tlp_def by (rule build_tlp_length [OF mode])
  then have len6: "length tlp \<le> 6" by simp
  note wire' = wire [folded tlp_def]
  note acc = frame_accepted [OF wire' len6 fs_def]
  have beats: "board_beats preamble fs c6 c7 c8 s = [orf_beats (chunk 6 fs) (chunk 7 fs) (chunk 8 fs)]"
    using rx_filter(1) [OF acc(2) start s acc(1)] by (simp add: board_beats_def)
  note dw = frame_dws [OF wire' len6 _ fs_def]
  have head: "low_dw (chunk 6 fs) = first_dw mode"
    using dw [of 0] len by (simp add: tlp_def build_tlp_def)
  have n: "tlp_len (chunk 6 fs) =
      (if mode = 0 then 0 else if mode = 1 then 1 else if mode = 2 then 1 else if mode = 3 then 2
       else if mode = 4 \<or> mode = 5 then 1023 else 0)"
    unfolding tlp_len_low head using modes [OF mode] by (auto simp: first_dw_def get_bits_def)
  have d: "high_dw (chunk 6 fs) = tlp ! 1" "low_dw (chunk 7 fs) = tlp ! 2"
    "3 < length tlp \<Longrightarrow> high_dw (chunk 7 fs) = tlp ! 3" "4 < length tlp \<Longrightarrow> low_dw (chunk 8 fs) = tlp ! 4"
    "5 < length tlp \<Longrightarrow> high_dw (chunk 8 fs) = tlp ! 5"
    using dw [of 1] dw [of 2] dw [of 3] dw [of 4] dw [of 5] len by simp_all
  have "beat_dws (orf_beats (chunk 6 fs) (chunk 7 fs) (chunk 8 fs)) = tlp
      \<and> complete (orf_beats (chunk 6 fs) (chunk 7 fs) (chunk 8 fs))"
    using modes [OF mode] d
    by (elim disjE)
      (simp_all add: orf_beats_def orf_last_def Let_def n beat_dws_def head complete_def tlp_def build_tlp_def
        less_Suc_eq nth_Cons')
  then show ?thesis using beats unfolding tlp_def fs_def by blast
qed

section \<open>Properties\<close>

definition kc705_mode :: "string list \<Rightarrow> int" where
  "kc705_mode argv = (if length argv \<ge> 3 then atoi (argv ! 2) else 0)"

lemma kc705_run:
  assumes "runs e argv" and "kc705_mode argv \<in> {0..7}"
  shows "datagrams (fst (kc705_main e ja argv)) =
      [(peer_addr e SERV_PORT (argv ! 1),
        kc705_packet (build_tlp (kc705_mode argv) (arg_or ja argv 3) (arg_or 0xa1b2c3d4 argv 4)))]"
    and "snd (kc705_main e ja argv) = Exit 0"
  using assms by (auto simp: kc705_main_def runs_def strcpy_into_def kc705_mode_def arg_or_def Let_def)

text \<open>
  Property C34: every mode of the KC705 client delivers its packet.  The client sends one datagram, to
  the port of the board at the address it was given, and exits with status 0; and from any frame that
  carries this datagram, with the padding and checksum that follow it on the wire, the board hands
  the PCI Express core one complete packet: exactly the double words the client built, header and
  data, with only the last beat marked as the last.
\<close>

theorem kc705_packet_delivered:
  assumes "runs e argv" and "kc705_mode argv \<in> {0..7}"
  shows "\<exists>p. datagrams (fst (kc705_main e ja argv)) = [(peer_addr e SERV_PORT (argv ! 1), p)]
    \<and> snd (kc705_main e ja argv) = Exit 0
    \<and> (\<forall>macs ip_head ip_rest udp_rest tail preamble c6 c7 c8 s.
        wire_ok macs ip_head ip_rest udp_rest p tail \<longrightarrow> get_bits 7 0 preamble = (0xfb :: byte) \<longrightarrow>
        rx_state s = RX_IDLE \<longrightarrow>
        (\<exists>bs. board_beats preamble
            (udp_frame macs ip_head ip_rest udp_rest (wire_port (peer_addr e SERV_PORT (argv ! 1))) p @ tail)
            c6 c7 c8 s = [bs]
          \<and> beat_dws bs = build_tlp (kc705_mode argv) (arg_or ja argv 3) (arg_or 0xa1b2c3d4 argv 4)
          \<and> complete bs))"
  using kc705_run [OF assms, of ja] tlp_delivered [OF _ assms(2)] by simp

lemma example_mode: "kc705_mode [''ipnuma_client'', ''192.168.0.1'', ''3'', ''0x10'', ''5''] = 3"
  by (simp add: kc705_mode_def atoi_def sign_of_def c_isspace_def digit_val_def)

theorem kc705_packet_delivered_witness:
  "\<exists>p bs. datagrams (fst (kc705_main example_net 7 [''ipnuma_client'', ''192.168.0.1'', ''3'', ''0x10'', ''5'']))
       = [(peer_addr example_net SERV_PORT ''192.168.0.1'', p)]
     \<and> board_beats 0xfb (udp_frame (replicate 12 1) (replicate 9 2) (replicate 12 3) (replicate 4 0) SERV_PORT p
         @ replicate 8 0) 0 0 0 (rx.make RX_IDLE 0 0 0 0 0 0) = [bs]
     \<and> beat_dws bs = [0x60000002, 0x123401ff, 0, 0x10, 5, 0] \<and> complete bs"
proof -
  let ?argv = "[''ipnuma_client'', ''192.168.0.1'', ''3'', ''0x10'', ''5'']"
  have args: "arg_or 7 ?argv 3 = 0x10" "arg_or 0xa1b2c3d4 ?argv 4 = 5"
    by (simp_all add: arg_or_def strtol_0_def sign_of_def c_isspace_def magnitude_0_def digit_val_def)
  have tlp: "build_tlp 3 0x10 5 = [0x60000002, 0x123401ff, 0, 0x10, 5, 0]"
    by (simp add: build_tlp_def first_dw_def)
  have mode: "kc705_mode ?argv \<in> {0..7}" by (simp add: example_mode)
  let ?p = "kc705_packet (build_tlp 3 0x10 5)"
  have run: "datagrams (fst (kc705_main example_net 7 ?argv)) = [(peer_addr example_net SERV_PORT ''192.168.0.1'', ?p)]"
    using kc705_run(1) [OF example_runs mode, of 7] by (simp add: example_mode args)
  have start: "get_bits 7 0 (0xfb :: u64) = (0xfb :: byte)" by (simp add: get_bits_def)
  have wire: "wire_ok (replicate 12 1) (replicate 9 2) (replicate 12 3) (replicate 4 0) ?p (replicate 8 0)"
    by (simp add: wire_ok_def frame_parts_ok_def packet_length tlp or_1 [simplified])
  have idle: "rx_state (rx.make RX_IDLE 0 0 0 0 0 0) = RX_IDLE" by (simp add: rx.make_def)
  from kc705_packet_delivered [OF example_runs mode, of 7] obtain p where p:
    "datagrams (fst (kc705_main example_net 7 ?argv)) = [(peer_addr example_net SERV_PORT ''192.168.0.1'', p)]"
    "\<forall>macs ip_head ip_rest udp_rest tail preamble c6 c7 c8 s.
        wire_ok macs ip_head ip_rest udp_rest p tail \<longrightarrow> get_bits 7 0 preamble = (0xfb :: byte) \<longrightarrow>
        rx_state s = RX_IDLE \<longrightarrow>
        (\<exists>bs. board_beats preamble (udp_frame macs ip_head ip_rest udp_rest SERV_PORT p @ tail) c6 c7 c8 s = [bs]
          \<and> beat_dws bs = build_tlp (kc705_mode ?argv) (arg_or 7 ?argv 3) (arg_or 0xa1b2c3d4 ?argv 4)
          \<and> complete bs)"
    by auto
  from p(1) run have "p = ?p" by simp
  with p(2) wire start idle show ?thesis
    unfolding run by (metis (no_types) example_mode args tlp)
qed

text \<open>
  Property C35: the client pads its packet so that the frame with its checksum fills whole eight-byte
  words: the length it passes to \<open>sendto\<close> is 18 bytes or 26 bytes or 34 bytes, the packet always
  fits the buffer, and \<open>18 + 42 + 4\<close> and each longer frame are multiples of eight.
\<close>

theorem kc705_frame_aligned:
  assumes "runs e argv" and "kc705_mode argv \<in> {0..7}" and "(a, p) \<in> set (datagrams (fst (kc705_main e ja argv)))"
  shows "(42 + length p + 4) mod 8 = 0 \<and> length p \<in> {18, 26, 34} \<and> length p \<le> BUFSIZE"
proof -
  define tlp where "tlp = build_tlp (kc705_mode argv) (arg_or ja argv 3) (arg_or 0xa1b2c3d4 argv 4)"
  have "length tlp \<in> {3..6}" unfolding tlp_def by (rule build_tlp_length [OF assms(2)])
  then have "length tlp = 3 \<or> length tlp = 4 \<or> length tlp = 5 \<or> length tlp = 6" by auto
  moreover have "p = kc705_packet tlp"
    using kc705_run(1) [OF assms(1,2), of ja] assms(3) by (simp add: tlp_def)
  ultimately show ?thesis by (auto simp: packet_length BUFSIZE_def)
qed

theorem kc705_frame_aligned_witness:
  "\<exists>a p. (a, p) \<in> set (datagrams (fst (kc705_main example_net 7 [''ipnuma_client'', ''192.168.0.1'', ''3'', ''0x10'', ''5''])))
     \<and> length p \<in> {18, 26, 34}"
proof -
  have mode: "kc705_mode [''ipnuma_client'', ''192.168.0.1'', ''3'', ''0x10'', ''5''] \<in> {0..7}"
    by (simp add: example_mode)
  show ?thesis
    using kc705_frame_aligned [OF example_runs mode, of _ _ 7] kc705_run(1) [OF example_runs mode, of 7] by auto
qed

end
