(* ===== verification/Net_Server.thy ===== *)
theory Net_Server
  imports Clib
begin

text \<open>
  The counting receiver \<open>ipnuma_server.c\<close>, the same file in \<open>software/ecp3_test\<close> and
  \<open>software/kc705_test\<close>: it prints how many times \<open>recv\<close> has returned.
\<close>

definition APP_PORT :: u16 where
  "APP_PORT = 3422"

text \<open>The endless loop for the results of its first calls of \<open>recv\<close>, from the count \<open>i\<close>.\<close>

primrec server_loop :: "int list \<Rightarrow> u32 \<Rightarrow> io_event list" where
  "server_loop [] i = []"
| "server_loop (r # rs) i =
     (let i' = i + 1 in
      (if r < 0 then [Perror ''sendto()''] else []) @ [Stdout ''%d'' [ucast i']] @ server_loop rs i')"

definition server_main :: "int list \<Rightarrow> program_run" where
  "server_main rs = (server_loop rs 0, Running)"

text \<open>The copy of the KC705 tests is the same text.\<close>

definition kc705_server_main :: "int list \<Rightarrow> program_run" where
  "kc705_server_main rs = (server_loop rs 0, Running)"

lemma same_server: "kc705_server_main = server_main"
  by (rule ext) (simp add: kc705_server_main_def server_main_def)

text \<open>The numbers it prints.\<close>

definition printed :: "io_event list \<Rightarrow> u64 list" where
  "printed ev = concat (map (\<lambda>e. case e of Stdout f vs \<Rightarrow> vs | _ \<Rightarrow> []) ev)"

lemma printed_append [simp]: "printed (xs @ ys) = printed xs @ printed ys"
  by (simp add: printed_def)

text \<open>A failed \<open>recv\<close> is counted like a datagram.\<close>

lemma server_counts:
  "printed (server_loop rs i) = map (\<lambda>k. ucast (i + of_nat (Suc k))) [0..<length rs]"
proof (induction rs arbitrary: i)
  case (Cons r rs)
  have "printed (server_loop (r # rs) i) = ucast (i + 1) # printed (server_loop rs (i + 1))"
    by (simp add: printed_def Let_def)
  then show ?case
    unfolding Cons.IH by (simp add: map_upt_Suc add.assoc del: upt_Suc)
qed (simp add: printed_def)

end
