(* ===== verification/Rom_Search.thy ===== *)
theory Rom_Search
  imports Clib
begin

text \<open>
  The DOS program \<open>software/biosrom/SEARCH_C.C\<close>: it looks for the option ROM of the board in the
  upper memory area and prints the parameters stored in it.  Its compiler has 16-bit integers,
  characters without a sign and far pointers, whose offset wraps within its segment.
\<close>

section \<open>Far pointers\<close>

text \<open>Memory by linear address; a far pointer names the byte at \<open>16 * segment + offset\<close>.\<close>

type_synonym real_memory = "nat \<Rightarrow> byte"

definition far_byte :: "real_memory \<Rightarrow> u16 \<Rightarrow> u16 \<Rightarrow> byte" where
  "far_byte m seg off = m (16 * unat seg + unat off)"

definition far_word :: "real_memory \<Rightarrow> u16 \<Rightarrow> u16 \<Rightarrow> u16" where
  "far_word m seg off = of_le [far_byte m seg off, far_byte m seg (off + 1)]"

section \<open>The search\<close>

definition PCIData :: "byte list" where
  "PCIData = map of_char ''PCIR''"

definition PCIExpRomString :: "byte list" where
  "PCIExpRomString = map of_char ''Option ROM Sample Program Image ( for PC/AT ROM )''"

text \<open>\<open>for (i=0;i<l;i++) { if (*p != s[i]) break; p++; }\<close>: the value of \<open>i\<close> afterwards.\<close>

fun compare_loop :: "real_memory \<Rightarrow> u16 \<Rightarrow> u16 \<Rightarrow> byte list \<Rightarrow> nat" where
  "compare_loop m seg off [] = 0"
| "compare_loop m seg off (b # bs) =
     (if far_byte m seg off \<noteq> b then 0 else Suc (compare_loop m seg (off + 1) bs))"

text \<open>The nested tests of one round: whether the loop is left with this segment.\<close>

definition rom_here :: "real_memory \<Rightarrow> u16 \<Rightarrow> bool" where
  "rom_here m SegAdr =
     (if far_word m SegAdr 0 = 0xaa55 then
        let PCIDataOff = far_word m SegAdr 0x18 in
        if compare_loop m SegAdr PCIDataOff PCIData = 4 then
          let VndID = far_word m SegAdr (PCIDataOff + 4);
              DevID = far_word m SegAdr (PCIDataOff + 4 + 2) in
          if VndID = 0x6809 \<and> DevID = 0x8000 then
            compare_loop m SegAdr 0x1a PCIExpRomString = length PCIExpRomString
          else False
        else False
      else False)"

lemma segment_step:
  assumes "\<not> seg + 32 < (0xc000 :: u16)"
  shows "unat (seg + 32) = unat seg + 32"
proof -
  have "unat (seg + 32) = (unat seg + 32) mod 2 ^ 16"
    by (simp add: unat_word_ariths)
  moreover have "0xc000 \<le> unat (seg + 32)"
    using assms by (simp add: word_less_nat_alt)
  moreover have "unat seg < 2 ^ 16"
    using unsigned_less [of seg, where ?'a = nat] by simp
  ultimately show ?thesis
    by (cases "unat seg + 32 < 2 ^ 16") (simp_all add: le_mod_geq)
qed

text \<open>The loop: \<open>None\<close> when the segment has wrapped below \<open>0xc000\<close>.\<close>

function rom_loop :: "real_memory \<Rightarrow> u16 \<Rightarrow> u16 option" where
  "rom_loop m SegAdr =
     (if rom_here m SegAdr then Some SegAdr
      else let SegAdr = SegAdr + 512 div 16 in
           if SegAdr < 0xc000 then None else rom_loop m SegAdr)"
  by auto
termination
proof (relation "measure (\<lambda>(m, seg). 2 ^ 16 - unat seg)")
  fix m :: real_memory and seg x :: u16
  assume "x = seg + 512 div 16" and "\<not> x < 0xc000"
  then have "unat x = unat seg + 32" and "unat x < 2 ^ 16"
    using segment_step [of seg] unsigned_less [of x, where ?'a = nat] by simp_all
  then show "((m, x), m, seg) \<in> measure (\<lambda>(m, seg). 2 ^ 16 - unat seg)" by simp
qed simp

declare rom_loop.simps [simp del]

section \<open>What it prints\<close>

record rom_info =
  rom_segment :: u16
  rom_mode :: int
  rom_address :: u16
  rom_string :: "byte list"

text \<open>
  The parameters at offset \<open>0x64\<close>: a byte, an address of two bytes and sixteen characters.  Whether
  \<open>char\<close> has a sign is left to the compiler; it has none in the build of the repository
  (\<open>SEARCH_C.EXE\<close>, which widens each of these bytes with zeros).
\<close>

definition rom_params :: "real_memory \<Rightarrow> u16 \<Rightarrow> rom_info" where
  "rom_params m seg =
     \<lparr>rom_segment = seg, rom_mode = uint (far_byte m seg 0x64),
      rom_address = ucast (far_byte m seg 0x65) + push_bit 8 (ucast (far_byte m seg 0x66)),
      rom_string = map (\<lambda>i. far_byte m seg (0x67 + of_nat i)) [0..<16]\<rparr>"

definition search_main :: "real_memory \<Rightarrow> rom_info option" where
  "search_main m = map_option (rom_params m) (rom_loop m 0xc000)"

section \<open>The search is a search\<close>

lemma compare_loop_all:
  "compare_loop m seg off bs = length bs \<longleftrightarrow> (\<forall>i < length bs. far_byte m seg (off + of_nat i) = bs ! i)"
proof (induction bs arbitrary: off)
  case (Cons b bs)
  have "(\<forall>i < length (b # bs). far_byte m seg (off + of_nat i) = (b # bs) ! i) \<longleftrightarrow>
      far_byte m seg off = b \<and> (\<forall>i < length bs. far_byte m seg (off + 1 + of_nat i) = bs ! i)"
    by (auto simp: less_Suc_eq_0_disj nth_Cons' algebra_simps)
  then show ?case using Cons.IH [of "off + 1"] by simp
qed simp

text \<open>What makes a segment the board's ROM.\<close>

definition is_board_rom :: "real_memory \<Rightarrow> u16 \<Rightarrow> bool" where
  "is_board_rom m seg \<longleftrightarrow>
     far_word m seg 0 = 0xaa55
     \<and> (\<forall>i < 4. far_byte m seg (far_word m seg 0x18 + of_nat i) = PCIData ! i)
     \<and> far_word m seg (far_word m seg 0x18 + 4) = 0x6809
     \<and> far_word m seg (far_word m seg 0x18 + 6) = 0x8000
     \<and> (\<forall>i < length PCIExpRomString. far_byte m seg (0x1a + of_nat i) = PCIExpRomString ! i)"

lemma rom_here_iff: "rom_here m seg = is_board_rom m seg"
proof -
  have "length PCIData = 4" by (simp add: PCIData_def)
  then show ?thesis
    using compare_loop_all [of m seg "far_word m seg 0x18" PCIData]
    by (auto simp: rom_here_def is_board_rom_def Let_def compare_loop_all add.assoc)
qed

definition segment_at :: "nat \<Rightarrow> u16" where
  "segment_at k = 0xc000 + of_nat (32 * k)"

lemma segment_nat: "k < 512 \<Longrightarrow> unat (segment_at k) = 0xc000 + 32 * k"
  by (simp add: segment_at_def unat_word_ariths unat_of_nat)

lemma rom_loop_find:
  "k \<le> 512 \<Longrightarrow> 0 < k \<Longrightarrow>
     rom_loop m (segment_at (512 - k)) = find (is_board_rom m) (map segment_at [512 - k..<512])"
proof (induction k)
  case (Suc k)
  let ?seg = "segment_at (512 - Suc k)"
  have seg: "?seg + 32 = segment_at (512 - k)"
    using Suc.prems(1) by (simp add: segment_at_def of_nat_diff algebra_simps)
  have list: "[512 - Suc k..<512] = (512 - Suc k) # [512 - k..<512]"
    using Suc.prems(1) by (metis Suc_diff_Suc Suc_le_lessD diff_less upt_conv_Cons zero_less_Suc
        less_le_trans zero_less_numeral)
  show ?case
  proof (cases "k = 0")
    case True
    have "segment_at 512 = 0" by (simp add: segment_at_def)
    with True seg list show ?thesis
      by (subst rom_loop.simps) (simp add: Let_def rom_here_iff)
  next
    case False
    then have "\<not> segment_at (512 - k) < 0xc000"
      using Suc.prems(1) by (simp add: word_less_nat_alt segment_nat)
    with False seg list Suc show ?thesis
      by (subst rom_loop.simps) (simp add: Let_def rom_here_iff)
  qed
qed simp

section \<open>The parameters\<close>

text \<open>What a ROM image stores at \<open>0x64\<close> is what the program prints.\<close>

lemma rom_params_stored:
  assumes "far_byte m seg 0x64 = mode" and "[far_byte m seg 0x65, far_byte m seg 0x66] = to_le 2 addr"
    and "length str = 16" and "\<forall>i < 16. far_byte m seg (0x67 + of_nat i) = str ! i"
  shows "rom_params m seg = \<lparr>rom_segment = seg, rom_mode = uint mode, rom_address = addr, rom_string = str\<rparr>"
proof -
  have "ucast l + push_bit 8 (ucast h) = (of_le [l, h] :: u16)" for l h :: byte
  proof -
    have "ucast l AND (push_bit 8 (ucast h) :: u16) = 0"
      by (rule bit_eqI) (auto simp: bit_simps dest: bit_imp_le_length)
    then show ?thesis by (simp add: disjunctive_add_eq_or)
  qed
  moreover have "of_le (to_le 2 addr) = addr" by (simp add: of_le_to_le)
  moreover have "map (\<lambda>i. far_byte m seg (0x67 + of_nat i)) [0..<16] = str"
    using assms(3,4) by (simp add: list_eq_iff_nth_eq)
  ultimately show ?thesis using assms(1,2) by (simp add: rom_params_def del: of_le.simps)
qed

section \<open>Properties\<close>

text \<open>
  Property C36: the search ends on every memory, after at most 512 rounds, and finds the first of the
  512-byte blocks from \<open>0xc0000\<close> to \<open>0xffe00\<close> that is the board's ROM: its signature, PCI data
  structure, vendor and device and name are all there; it reports "not found" when no block is.
\<close>

theorem rom_search_finds_first:
  "map_option rom_segment (search_main m) = find (is_board_rom m) (map segment_at [0..<512])"
proof -
  have "map_option (rom_segment \<circ> rom_params m) x = x" for x by (cases x) (simp_all add: rom_params_def)
  moreover have "segment_at 0 = 0xc000" by (simp add: segment_at_def)
  ultimately show ?thesis
    using rom_loop_find [of 512 m] by (simp add: search_main_def option.map_comp)
qed

end
