(* ===== verification/Sock_Pingpong.thy ===== *)
theory Sock_Pingpong
  imports Clib
begin

text \<open>
  The reference benchmark over UDP sockets, \<open>software/pingpong/socket_pingpong.c\<close>, run on two
  machines against each other.  Datagrams travel for a time of their own; one that arrives at a
  machine whose program has not started yet, or has exited, is gone.  UDP promises no more, so a
  \<open>faulty\<close> network may also lose, duplicate and reorder what is on its way, and the calls of the
  programs may fail; what the programs print is bounded on every network, and how a run ends is
  shown for one that delivers everything in order while no call fails.
\<close>

section \<open>Two running programs\<close>

definition ROUNDS :: nat where
  "ROUNDS = 2000000"

datatype sock_pc = Off | Test | Send | Recv | Done

text \<open>
  \<open>count_s\<close> and \<open>count_r\<close> are the counters in the two buffers, \<open>rounds\<close> is the local \<open>i\<close>, \<open>inbox\<close> the
  datagrams waiting on \<open>sock_r\<close> and \<open>wire\<close> those on their way to this machine.
\<close>

record peer =
  pc :: sock_pc
  count_s :: int
  count_r :: int
  rounds :: nat
  inbox :: "int list"
  wire :: "int list"

type_synonym peers = "bool \<Rightarrow> peer"

definition peer_off :: peer where
  "peer_off = \<lparr>pc = Off, count_s = 0, count_r = 0, rounds = 0, inbox = [], wire = []\<rparr>"

text \<open>
  A program up to its loop: it ends at once on wrong arguments or without a socket, overruns its
  buffer on a long argument, and else starts with both counters zero.
\<close>

definition PINGPONG_PORT :: u16 where
  "PINGPONG_PORT = 3422"

definition sock_start :: "net_env \<Rightarrow> string list \<Rightarrow> program_run + (sockaddr \<times> peer)" where
  "sock_start e argv =
     (if length argv \<noteq> 2 then Inl ([Stderr ''usage: [dest IP]''], Exit (-1))
      else case strcpy_into 256 (argv ! 1) of
        None \<Rightarrow> Inl ([], Overflow)
      | Some dest_ip \<Rightarrow>
          let addr_s = peer_addr e PINGPONG_PORT dest_ip in
          if socket_ret e < 0 then Inl ([Perror ''socket()''], Exit 1)
          else Inr (addr_s, peer_off\<lparr>pc := Test\<rparr>))"

definition listening :: "peer \<Rightarrow> bool" where
  "listening m \<longleftrightarrow> pc m \<noteq> Off \<and> pc m \<noteq> Done"

text \<open>
  \<open>sendto\<close> puts the counter on the way to the other machine; when it fails, a message is printed and
  the program goes on to \<open>recv\<close> all the same.
\<close>

definition send_step :: "bool \<Rightarrow> peers \<Rightarrow> peers" where
  "send_step p s =
     (let v = count_s (s p);
          s = s(p := (s p)\<lparr>pc := Recv\<rparr>) in
      s(\<not> p := (s (\<not> p))\<lparr>wire := wire (s (\<not> p)) @ [v]\<rparr>))"

definition send_fails :: "bool \<Rightarrow> peers \<Rightarrow> peers" where
  "send_fails p s = s(p := (s p)\<lparr>pc := Recv\<rparr>)"

text \<open>
  \<open>recv\<close> into \<open>*count_r\<close>, \<open>*count_s = *count_r + 1\<close> and \<open>++i\<close>; when \<open>recv\<close> fails, the buffer keeps
  its value and the program goes on.
\<close>

definition next_round :: "peer \<Rightarrow> peer" where
  "next_round m = m\<lparr>pc := Test, count_s := count_r m + 1, rounds := rounds m + 1\<rparr>"

definition recv_step :: "bool \<Rightarrow> int \<Rightarrow> int list \<Rightarrow> peers \<Rightarrow> peers" where
  "recv_step p v vs s = s(p := next_round ((s p)\<lparr>count_r := v, inbox := vs\<rparr>))"

definition recv_fails :: "bool \<Rightarrow> peers \<Rightarrow> peers" where
  "recv_fails p s = s(p := next_round (s p))"

text \<open>A datagram arrives.\<close>

definition arrive_step :: "bool \<Rightarrow> int \<Rightarrow> int list \<Rightarrow> peers \<Rightarrow> peers" where
  "arrive_step p v vs s =
     s(p := (s p)\<lparr>wire := vs, inbox := (if listening (s p) then inbox (s p) @ [v] else inbox (s p))\<rparr>)"

inductive sock_step :: "bool \<Rightarrow> peers \<Rightarrow> peers \<Rightarrow> bool" for faulty where
  begins: "pc (s p) = Off \<Longrightarrow> sock_step faulty s (s(p := peer_off\<lparr>pc := Test, wire := wire (s p)\<rparr>))"
| tests: "pc (s p) = Test \<Longrightarrow>
     sock_step faulty s (s(p := (s p)\<lparr>pc := (if count_s (s p) < int ROUNDS then Send else Done)\<rparr>))"
| sends: "pc (s p) = Send \<Longrightarrow> sock_step faulty s (send_step p s)"
| receives: "pc (s p) = Recv \<Longrightarrow> inbox (s p) = v # vs \<Longrightarrow> sock_step faulty s (recv_step p v vs s)"
| arrives: "wire (s p) = v # vs \<Longrightarrow> sock_step faulty s (arrive_step p v vs s)"
| disturbed: "faulty \<Longrightarrow> set ws \<subseteq> set (wire (s p)) \<Longrightarrow> sock_step faulty s (s(p := (s p)\<lparr>wire := ws\<rparr>))"
| send_error: "faulty \<Longrightarrow> pc (s p) = Send \<Longrightarrow> sock_step faulty s (send_fails p s)"
| recv_error: "faulty \<Longrightarrow> pc (s p) = Recv \<Longrightarrow> sock_step faulty s (recv_fails p s)"

inductive sock_reach :: "bool \<Rightarrow> peers \<Rightarrow> bool" for faulty where
  off: "sock_reach faulty (\<lambda>_. peer_off)"
| step: "sock_reach faulty s \<Longrightarrow> sock_step faulty s t \<Longrightarrow> sock_reach faulty t"

text \<open>A program whose start succeeds takes the first step of the relation.\<close>

lemma start_step:
  "sock_start e argv = Inr (a, m) \<Longrightarrow> pc (s p) = Off \<Longrightarrow> sock_step f s (s(p := m\<lparr>wire := wire (s p)\<rparr>))"
  by (auto simp: sock_start_def Let_def intro: sock_step.begins split: if_splits option.splits)

inductive_cases sock_stepE: "sock_step f s t"

lemma sock_reach_steps: "(sock_step f)\<^sup>*\<^sup>* s t \<Longrightarrow> sock_reach f s \<Longrightarrow> sock_reach f t"
  by (induction rule: rtranclp_induct) (auto intro: sock_reach.step)

text \<open>The effect of a step on the two programs: \<open>m\<close> moves, \<open>w\<close> is the other one.\<close>

definition sent_to :: "int \<Rightarrow> peer \<Rightarrow> peer" where
  "sent_to v w = w\<lparr>wire := wire w @ [v]\<rparr>"

definition received :: "int \<Rightarrow> int list \<Rightarrow> peer \<Rightarrow> peer" where
  "received v vs m = m\<lparr>pc := Test, count_r := v, count_s := v + 1, rounds := rounds m + 1, inbox := vs\<rparr>"

definition tested :: "peer \<Rightarrow> peer" where
  "tested m = m\<lparr>pc := (if count_s m < int ROUNDS then Send else Done)\<rparr>"

definition arrived :: "int \<Rightarrow> int list \<Rightarrow> peer \<Rightarrow> peer" where
  "arrived v vs m = m\<lparr>wire := vs, inbox := (if listening m then inbox m @ [v] else inbox m)\<rparr>"

lemma step_peers:
  "send_step p s p = (s p)\<lparr>pc := Recv\<rparr>" "send_step p s (\<not> p) = sent_to (count_s (s p)) (s (\<not> p))"
  "recv_step p v vs s p = received v vs (s p)" "recv_step p v vs s (\<not> p) = s (\<not> p)"
  "arrive_step p v vs s p = arrived v vs (s p)" "arrive_step p v vs s (\<not> p) = s (\<not> p)"
  by (simp_all add: send_step_def sent_to_def recv_step_def received_def next_round_def arrive_step_def
      arrived_def Let_def)

lemma bool_all: "(\<forall>p. P p) \<longleftrightarrow> P q \<and> P (\<not> q)" for P :: "bool \<Rightarrow> bool"
  by (cases q) (auto simp: all_bool_eq)

section \<open>On every network\<close>

text \<open>
  A value grows by one each time it is answered, so a program cannot hold one that is more than twice
  the number of its rounds, and the other program has made half of it as well.
\<close>

definition value_ok :: "nat \<Rightarrow> nat \<Rightarrow> int \<Rightarrow> bool" where
  "value_ok r r' v \<longleftrightarrow> 0 \<le> v \<and> v < int ROUNDS \<and> v \<le> 2 * int r + 1 \<and> v \<le> 2 * int r'"

definition counters_ok :: "nat \<Rightarrow> int \<Rightarrow> int \<Rightarrow> bool" where
  "counters_ok r cs cr \<longleftrightarrow> 0 \<le> cr \<and> (if r = 0 then cs = 0 \<and> cr = 0 else cs = cr + 1)"

definition count_ok :: "peer \<Rightarrow> peer \<Rightarrow> bool" where
  "count_ok m w \<longleftrightarrow>
     counters_ok (rounds m) (count_s m) (count_r m)
     \<and> count_s m \<le> int ROUNDS \<and> count_s m \<le> 2 * int (rounds m)
     \<and> count_s m \<le> 2 * int (rounds w) + 1
     \<and> (\<forall>v \<in> set (inbox m) \<union> set (wire m). value_ok (rounds m) (rounds w) v)
     \<and> (pc m = Send \<or> pc m = Recv \<longrightarrow> count_s m < int ROUNDS) \<and> (pc m = Done \<longrightarrow> count_s m = int ROUNDS)
     \<and> (pc m = Off \<longrightarrow> rounds m = 0 \<and> inbox m = [])"

definition counts_ok :: "peers \<Rightarrow> bool" where
  "counts_ok s \<longleftrightarrow> (\<forall>p. count_ok (s p) (s (\<not> p)))"

lemma counts_okD: "counts_ok s \<Longrightarrow> count_ok (s p) (s (\<not> p)) \<and> count_ok (s (\<not> p)) (s p)"
  unfolding counts_ok_def bool_all [where q = p] by simp

lemma counts_okI: "count_ok (s p) (s (\<not> p)) \<Longrightarrow> count_ok (s (\<not> p)) (s p) \<Longrightarrow> counts_ok s"
  unfolding counts_ok_def bool_all [where q = p] by simp

lemma value_ok_Suc: "value_ok r r' v \<Longrightarrow> value_ok (Suc r) r' v" "value_ok r r' v \<Longrightarrow> value_ok r (Suc r') v"
  by (simp_all add: value_ok_def)

lemma count_next_round:
  assumes "count_ok m w" and "count_ok w m" and "pc m = Recv"
  shows "count_ok (next_round m) w" and "count_ok w (next_round m)"
proof -
  have c: "count_r m + 1 \<le> int ROUNDS" "count_r m + 1 \<le> 2 * int (rounds m + 1)"
    "count_r m + 1 \<le> 2 * int (rounds w) + 1" "0 \<le> count_r m"
    using assms(1,3) by (auto simp: count_ok_def counters_ok_def split: if_splits)
  then show "count_ok (next_round m) w"
    using assms(1) by (auto simp: count_ok_def next_round_def counters_ok_def intro: value_ok_Suc)
  show "count_ok w (next_round m)"
    using assms(2) by (auto simp: count_ok_def next_round_def intro: value_ok_Suc)
qed

lemma count_received:
  assumes "count_ok m w" and "count_ok w m" and "inbox m = v # vs"
  shows "count_ok (received v vs m) w" and "count_ok w (received v vs m)"
proof -
  have v: "value_ok (rounds m) (rounds w) v" using assms(1,3) by (simp add: count_ok_def)
  then have "0 \<le> v" "v + 1 \<le> int ROUNDS" "v + 1 \<le> 2 * int (rounds m + 1)" "v + 1 \<le> 2 * int (rounds w) + 1"
    by (simp_all add: value_ok_def)
  then show "count_ok (received v vs m) w"
    using assms(1,3) by (auto simp: count_ok_def received_def counters_ok_def intro: value_ok_Suc)
  show "count_ok w (received v vs m)"
    using assms(2) by (auto simp: count_ok_def received_def intro: value_ok_Suc)
qed

lemma count_sent:
  assumes "count_ok m w" and "count_ok w m" and "pc m = Send"
  shows "count_ok (m\<lparr>pc := Recv\<rparr>) (sent_to (count_s m) w)" and "count_ok (sent_to (count_s m) w) (m\<lparr>pc := Recv\<rparr>)"
proof -
  have "0 \<le> count_s m" using assms(1) by (auto simp: count_ok_def counters_ok_def split: if_splits)
  then have v: "value_ok (rounds w) (rounds m) (count_s m)"
    using assms(1,3) by (simp add: count_ok_def value_ok_def)
  show "count_ok (m\<lparr>pc := Recv\<rparr>) (sent_to (count_s m) w)"
    using assms(1,3) by (simp add: count_ok_def sent_to_def)
  show "count_ok (sent_to (count_s m) w) (m\<lparr>pc := Recv\<rparr>)"
    using assms(2) v by (simp add: count_ok_def sent_to_def)
qed

lemma count_moved:
  "count_ok m w \<Longrightarrow> pc m = Off \<Longrightarrow> count_ok (peer_off\<lparr>pc := Test, wire := wire m\<rparr>) w"
  "count_ok m w \<Longrightarrow> pc m = Test \<Longrightarrow> count_ok (tested m) w"
  "count_ok m w \<Longrightarrow> wire m = v # vs \<Longrightarrow> count_ok (arrived v vs m) w"
  "count_ok m w \<Longrightarrow> set ws \<subseteq> set (wire m) \<Longrightarrow> count_ok (m\<lparr>wire := ws\<rparr>) w"
  "count_ok m w \<Longrightarrow> pc m = Send \<Longrightarrow> count_ok (m\<lparr>pc := Recv\<rparr>) w"
  by (auto simp: count_ok_def counters_ok_def peer_off_def)[1]
    (auto simp: count_ok_def tested_def arrived_def listening_def)

lemma count_same_rounds: "count_ok w m \<Longrightarrow> rounds m' = rounds m \<Longrightarrow> count_ok w m'"
  by (simp add: count_ok_def)

lemma counts_moved:
  assumes "counts_ok s" and "count_ok m (s (\<not> p))" and "rounds m = rounds (s p)"
  shows "counts_ok (s(p := m))"
  using assms(2,3) counts_okD [OF assms(1), of p] by (intro counts_okI [of _ p]) (auto intro: count_same_rounds)

lemma counts_step:
  assumes "sock_step f s t" and "counts_ok s"
  shows "counts_ok t"
proof -
  note ok = counts_okD [OF assms(2), THEN conjunct1] counts_okD [OF assms(2), THEN conjunct2]
  from assms(1) show ?thesis
  proof cases
    case (begins p)
    moreover have "rounds (s p) = 0" using ok(1) [of p] begins by (simp add: count_ok_def)
    ultimately show ?thesis
      using counts_moved [OF assms(2) count_moved(1) [OF ok(1)], of p] by (simp add: peer_off_def)
  next
    case (tests p)
    then show ?thesis
      using counts_moved [OF assms(2) count_moved(2) [OF ok(1)], of p] by (simp add: tested_def)
  next
    case (sends p)
    then show ?thesis
      using count_sent [OF ok] by (intro counts_okI [of _ p]) (simp_all add: step_peers)
  next
    case (receives p v vs)
    then show ?thesis
      using count_received [OF ok] by (intro counts_okI [of _ p]) (simp_all add: step_peers)
  next
    case (arrives p v vs)
    then show ?thesis
      using counts_moved [OF assms(2) count_moved(3) [OF ok(1)], of p v vs]
      by (simp add: arrive_step_def arrived_def)
  next
    case (disturbed ws p)
    then show ?thesis
      using counts_moved [OF assms(2) count_moved(4) [OF ok(1)], of ws p] by simp
  next
    case (send_error p)
    then show ?thesis
      using counts_moved [OF assms(2) count_moved(5) [OF ok(1)], of p] by (simp add: send_fails_def)
  next
    case (recv_error p)
    then show ?thesis
      using count_next_round [OF ok] by (intro counts_okI [of _ p]) (simp_all add: recv_fails_def)
  qed
qed

lemma counts_reach: "sock_reach f s \<Longrightarrow> counts_ok s"
  by (induction rule: sock_reach.induct) (simp add: counts_ok_def count_ok_def counters_ok_def peer_off_def, rule counts_step)

section \<open>The two ways to start\<close>

text \<open>Both programs are at the head of their loops, and nothing has been sent.\<close>

definition together :: peers where
  "together = (\<lambda>_. peer_off\<lparr>pc := Test\<rparr>)"

text \<open>
  The program \<open>w\<close> is at the head of its loop; the other one has sent its first datagram, which is
  gone, because \<open>w\<close> had not started, and waits for the answer.
\<close>

definition late :: "bool \<Rightarrow> peers" where
  "late w = (\<lambda>p. if p = w then peer_off\<lparr>pc := Test\<rparr> else peer_off\<lparr>pc := Recv\<rparr>)"

text \<open>All datagrams a program will still get, in order.\<close>

definition queue :: "peer \<Rightarrow> int list" where
  "queue m = inbox m @ wire m"

text \<open>Datagrams sent, counted in rounds; a program at \<open>recv\<close> has sent that of the current round.\<close>

definition sent :: "peer \<Rightarrow> nat" where
  "sent m = rounds m + (if pc m = Recv then 1 else 0)"

text \<open>
  Started together, the programs exchange equal values in lockstep.
\<close>

definition lock_ok :: "peer \<Rightarrow> peer \<Rightarrow> bool" where
  "lock_ok m w \<longleftrightarrow> pc m \<noteq> Off \<and> count_s m = int (rounds m) \<and> count_r m = int (rounds m - 1)
     \<and> rounds m \<le> sent w \<and> rounds m \<le> ROUNDS
     \<and> (pc m = Send \<or> pc m = Recv \<longrightarrow> rounds m < ROUNDS) \<and> (pc m = Done \<longrightarrow> rounds m = ROUNDS)
     \<and> (pc m \<noteq> Done \<longrightarrow> queue m = map int [rounds m..<sent w])"

definition lockstep :: "peers \<Rightarrow> bool" where
  "lockstep s \<longleftrightarrow> (\<forall>p. lock_ok (s p) (s (\<not> p)))"

text \<open>
  When the first datagram of \<open>m\<close> is lost, one token goes back and forth: \<open>m\<close> sends odd values and
  \<open>w\<close> even ones.
\<close>

definition sent_odd :: "peer \<Rightarrow> nat" where
  "sent_odd m = (if pc m = Recv then rounds m else rounds m - 1)"

definition token_ok :: "peer \<Rightarrow> peer \<Rightarrow> bool" where
  "token_ok m w \<longleftrightarrow> pc m \<noteq> Off \<and> pc m \<noteq> Done \<and> pc w \<noteq> Off
     \<and> count_s m = (if rounds m = 0 then 0 else 2 * int (rounds m) - 1)
     \<and> count_s w = 2 * int (rounds w) \<and> count_r w = (if rounds w = 0 then 0 else 2 * int (rounds w) - 1)
     \<and> rounds m \<le> sent w \<and> rounds w \<le> sent_odd m \<and> (rounds m = 0 \<longrightarrow> pc m = Recv)
     \<and> 2 * rounds w \<le> ROUNDS \<and> (pc w = Send \<or> pc w = Recv \<longrightarrow> 2 * rounds w < ROUNDS)
     \<and> (pc w = Done \<longrightarrow> 2 * rounds w = ROUNDS)
     \<and> queue m = map (\<lambda>j. 2 * int j) [rounds m..<sent w]
     \<and> queue w = map (\<lambda>j. 2 * int j + 1) [rounds w..<sent_odd m]"

lemma upt_nonempty:
  "map f [i..<n] = v # vs \<longleftrightarrow> i < n \<and> v = f i \<and> vs = map f [Suc i..<n]"
  "v # vs = map f [i..<n] \<longleftrightarrow> i < n \<and> v = f i \<and> vs = map f [Suc i..<n]"
  by (cases "i < n"; auto simp: upt_conv_Cons)+

lemma queue_simps [simp]:
  "queue (m\<lparr>pc := c\<rparr>) = queue m" "queue (sent_to v w) = queue w @ [v]" "queue (tested m) = queue m"
  "inbox m = v # vs \<Longrightarrow> queue m = v # queue (received v vs m)"
  "listening m \<Longrightarrow> wire m = v # vs \<Longrightarrow> queue (arrived v vs m) = queue m"
  by (simp_all add: queue_def sent_to_def tested_def received_def arrived_def)

lemma received_queue: "inbox m = v # vs \<Longrightarrow> queue m = v # qs \<Longrightarrow> queue (received v vs m) = qs"
  by (simp add: queue_def received_def)

lemma received_frame [simp]:
  "pc (received v vs m) = Test" "count_s (received v vs m) = v + 1" "count_r (received v vs m) = v"
  "rounds (received v vs m) = rounds m + 1" "sent (received v vs m) = rounds m + 1"
  "sent_odd (received v vs m) = rounds m"
  by (simp_all add: received_def sent_def sent_odd_def)

lemma sent_to_frame [simp]:
  "pc (sent_to v m) = pc m" "count_s (sent_to v m) = count_s m" "count_r (sent_to v m) = count_r m"
  "rounds (sent_to v m) = rounds m" "sent (sent_to v m) = sent m" "sent_odd (sent_to v m) = sent_odd m"
  by (simp_all add: sent_to_def sent_def sent_odd_def)

lemma arrived_frame [simp]:
  "pc (arrived v vs m) = pc m" "count_s (arrived v vs m) = count_s m" "count_r (arrived v vs m) = count_r m"
  "rounds (arrived v vs m) = rounds m" "sent (arrived v vs m) = sent m" "sent_odd (arrived v vs m) = sent_odd m"
  by (simp_all add: arrived_def sent_def sent_odd_def)

section \<open>Lockstep\<close>

lemma lock_tested:
  "lock_ok m w \<Longrightarrow> lock_ok w m \<Longrightarrow> pc m = Test \<Longrightarrow> lock_ok (tested m) w \<and> lock_ok w (tested m)"
  by (auto simp: lock_ok_def sent_def tested_def queue_def)

lemma lock_sent:
  assumes "lock_ok m w" and "lock_ok w m" and "pc m = Send"
  shows "lock_ok (m\<lparr>pc := Recv\<rparr>) (sent_to (count_s m) w) \<and> lock_ok (sent_to (count_s m) w) (m\<lparr>pc := Recv\<rparr>)"
  using assms by (cases "pc w") (auto simp: lock_ok_def sent_def sent_to_def queue_def)

lemma lock_received:
  assumes "lock_ok m w" and "lock_ok w m" and "pc m = Recv" and "inbox m = v # vs"
  shows "lock_ok (received v vs m) w \<and> lock_ok w (received v vs m)"
proof -
  have "v # queue (received v vs m) = map int [rounds m..<sent w]"
    using assms(1,3,4) by (simp add: lock_ok_def)
  then have "rounds m < sent w" "v = int (rounds m)" "queue (received v vs m) = map int [Suc (rounds m)..<sent w]"
    unfolding upt_nonempty by blast+
  then show ?thesis using assms by (auto simp: lock_ok_def sent_def)
qed

lemma lock_arrived:
  assumes "lock_ok m w" and "lock_ok w m" and "wire m = v # vs"
  shows "lock_ok (arrived v vs m) w \<and> lock_ok w (arrived v vs m)"
  using assms by (auto simp: lock_ok_def listening_def)

lemma lockstepD: "lockstep s \<Longrightarrow> lock_ok (s p) (s (\<not> p)) \<and> lock_ok (s (\<not> p)) (s p)"
  unfolding lockstep_def bool_all [where q = p] by simp

lemma lock_step:
  assumes "lockstep s" and "sock_step False s t"
  shows "lockstep t"
  using assms(2)
proof cases
  case (begins p)
  with lockstepD [OF assms(1), of p] show ?thesis by (simp add: lock_ok_def)
next
  case (tests p)
  with lockstepD [OF assms(1), of p] lock_tested [of "s p" "s (\<not> p)"] show ?thesis
    unfolding lockstep_def bool_all [where q = p] by (simp add: tested_def)
next
  case (sends p)
  with lockstepD [OF assms(1), of p] lock_sent [of "s p" "s (\<not> p)"] show ?thesis
    unfolding lockstep_def bool_all [where q = p] by (simp add: step_peers)
next
  case (receives p v vs)
  with lockstepD [OF assms(1), of p] lock_received [of "s p" "s (\<not> p)" v vs] show ?thesis
    unfolding lockstep_def bool_all [where q = p] by (simp add: step_peers)
next
  case (arrives p v vs)
  with lockstepD [OF assms(1), of p] lock_arrived [of "s p" "s (\<not> p)" v vs] show ?thesis
    unfolding lockstep_def bool_all [where q = p] by (simp add: step_peers)
qed simp_all

section \<open>One token\<close>

lemma token_tested:
  "token_ok m w \<Longrightarrow> pc m = Test \<Longrightarrow> token_ok (tested m) w"
  "token_ok m w \<Longrightarrow> pc w = Test \<Longrightarrow> token_ok m (tested w)"
  by (auto simp: token_ok_def sent_def sent_odd_def tested_def ROUNDS_def split: if_splits)

lemma token_sent_odd:
  assumes "token_ok m w" and "pc m = Send"
  shows "token_ok (m\<lparr>pc := Recv\<rparr>) (sent_to (count_s m) w)"
proof -
  obtain r where r: "rounds m = Suc r" using assms by (cases "rounds m") (simp_all add: token_ok_def)
  then have "[rounds w..<Suc r] = [rounds w..<r] @ [r]" using assms by (simp add: token_ok_def sent_odd_def)
  with r assms show ?thesis
    by (auto simp: token_ok_def sent_odd_def sent_def)
qed

lemma token_sent_even:
  assumes "token_ok m w" and "pc w = Send"
  shows "token_ok (sent_to (count_s w) m) (w\<lparr>pc := Recv\<rparr>)"
proof -
  have "sent w = rounds w" "sent (w\<lparr>pc := Recv\<rparr>) = Suc (rounds w)"
    using assms(2) by (simp_all add: sent_def)
  then show ?thesis using assms by (simp add: token_ok_def)
qed

lemma token_received_odd:
  assumes "token_ok m w" and "pc m = Recv" and "inbox m = v # vs"
  shows "token_ok (received v vs m) w"
proof -
  have "v # queue (received v vs m) = map (\<lambda>j. 2 * int j) [rounds m..<sent w]"
    using assms by (simp add: token_ok_def)
  then have "rounds m < sent w" "v = 2 * int (rounds m)"
    "queue (received v vs m) = map (\<lambda>j. 2 * int j) [Suc (rounds m)..<sent w]"
    unfolding upt_nonempty by blast+
  then show ?thesis using assms by (auto simp: token_ok_def sent_def sent_odd_def)
qed

lemma token_received_even:
  assumes "token_ok m w" and "pc w = Recv" and "inbox w = v # vs"
  shows "token_ok m (received v vs w)"
proof -
  have "v # queue (received v vs w) = map (\<lambda>j. 2 * int j + 1) [rounds w..<sent_odd m]"
    using assms by (simp add: token_ok_def)
  then have "rounds w < sent_odd m" "v = 2 * int (rounds w) + 1"
    "queue (received v vs w) = map (\<lambda>j. 2 * int j + 1) [Suc (rounds w)..<sent_odd m]"
    unfolding upt_nonempty by blast+
  then show ?thesis using assms by (auto simp: token_ok_def sent_def ROUNDS_def)
qed

lemma token_idle:
  assumes "token_ok m w" and "pc w = Done"
  shows "queue w = []"
proof -
  have "sent_odd m \<le> rounds m" by (simp add: sent_odd_def)
  moreover have "rounds m \<le> rounds w" using assms by (simp add: token_ok_def sent_def)
  ultimately show ?thesis using assms(1) by (simp add: token_ok_def)
qed

lemma token_arrived:
  assumes "token_ok m w"
  shows "wire m = v # vs \<Longrightarrow> token_ok (arrived v vs m) w" and "wire w = v # vs \<Longrightarrow> token_ok m (arrived v vs w)"
proof -
  show "wire m = v # vs \<Longrightarrow> token_ok (arrived v vs m) w"
    using assms by (simp add: token_ok_def listening_def)
  show "token_ok m (arrived v vs w)" if "wire w = v # vs"
  proof -
    have "pc w \<noteq> Done" using token_idle [OF assms] that by (auto simp: queue_def)
    then show ?thesis using assms that by (simp add: token_ok_def listening_def)
  qed
qed

lemma token_step:
  assumes inv: "token_ok (s a) (s (\<not> a))" and "sock_step False s t"
  shows "token_ok (t a) (t (\<not> a))"
  using assms(2)
proof cases
  case (begins p)
  with inv show ?thesis by (cases "p = a") (auto simp: token_ok_def)
next
  case (tests p)
  with inv show ?thesis
    using token_tested [OF inv] by (cases "p = a") (auto simp: tested_def)
next
  case (sends p)
  show ?thesis
  proof (cases "p = a")
    case True
    with sends token_sent_odd [OF inv] show ?thesis by (simp add: step_peers)
  next
    case False
    then have "a = (\<not> p)" by simp
    with sends token_sent_even [of "s a" "s (\<not> a)"] inv show ?thesis by (simp add: step_peers)
  qed
next
  case (receives p v vs)
  show ?thesis
  proof (cases "p = a")
    case True
    with receives token_received_odd [OF inv] show ?thesis by (simp add: step_peers)
  next
    case False
    then have "a = (\<not> p)" by simp
    with receives token_received_even [of "s a" "s (\<not> a)"] inv show ?thesis by (simp add: step_peers)
  qed
next
  case (arrives p v vs)
  show ?thesis
  proof (cases "p = a")
    case True
    with arrives token_arrived(1) [OF inv] show ?thesis by (simp add: step_peers)
  next
    case False
    then have "a = (\<not> p)" by simp
    with arrives token_arrived(2) [of "s a" "s (\<not> a)"] inv show ?thesis by (simp add: step_peers)
  qed
qed simp_all

text \<open>Where the token is on its way, both programs are at \<open>recv\<close> and have nothing else to receive.\<close>

lemma token_on_wire:
  assumes "token_ok m w" and "queue m \<noteq> [] \<or> queue w \<noteq> []"
  shows "pc m = Recv \<and> pc w = Recv \<and> length (queue m) + length (queue w) = 1"
proof -
  have len: "length (queue m) = sent w - rounds m" "length (queue w) = sent_odd m - rounds w"
    using assms(1) by (simp_all add: token_ok_def)
  with assms(2) have "rounds m < sent w \<or> rounds w < sent_odd m"
    by (metis length_greater_0_conv zero_less_diff)
  moreover have "rounds m \<le> sent w" "rounds w \<le> sent_odd m" "pc m \<noteq> Recv \<Longrightarrow> 0 < rounds m"
    using assms(1) by (auto simp: token_ok_def)
  ultimately show ?thesis
    unfolding len by (cases "pc m = Recv"; cases "pc w = Recv") (auto simp: sent_def sent_odd_def)
qed

lemma lockstep_start: "(sock_step False)\<^sup>*\<^sup>* together s \<Longrightarrow> lockstep s"
  by (induction rule: rtranclp_induct)
    (simp add: lockstep_def together_def lock_ok_def peer_off_def sent_def queue_def ROUNDS_def, rule lock_step)

lemma token_start: "(sock_step False)\<^sup>*\<^sup>* (late w) s \<Longrightarrow> token_ok (s (\<not> w)) (s w)"
proof (induction rule: rtranclp_induct)
  case base
  show ?case
    by (simp add: late_def token_ok_def peer_off_def sent_def sent_odd_def queue_def ROUNDS_def)
next
  case (step s t)
  then show ?case using token_step [of s "\<not> w" t] by simp
qed

text \<open>Both starts are states a run can come to.\<close>

lemma starts_reach: "sock_reach f together" "sock_reach f (late w)"
proof -
  define s1 where "s1 = (\<lambda>_. peer_off)((\<not> w) := peer_off\<lparr>pc := Test\<rparr>)"
  define s2 where "s2 = (\<lambda>_. peer_off)((\<not> w) := peer_off\<lparr>pc := Send\<rparr>)"
  define s3 where "s3 = (\<lambda>_. peer_off\<lparr>wire := [0]\<rparr>)((\<not> w) := peer_off\<lparr>pc := Recv\<rparr>)"
  define s4 where "s4 = (\<lambda>_. peer_off)((\<not> w) := peer_off\<lparr>pc := Recv\<rparr>)"
  have "sock_reach f s1"
    using sock_reach.step [OF sock_reach.off sock_step.begins [of "\<lambda>_. peer_off" "\<not> w"]]
    by (simp add: s1_def peer_off_def)
  from sock_reach.step [OF this sock_step.begins [of s1 w]]
  have "sock_reach f (s1(w := peer_off\<lparr>pc := Test\<rparr>))" by (simp add: s1_def peer_off_def)
  moreover have "s1(w := peer_off\<lparr>pc := Test\<rparr>) = together"
    by (auto simp: s1_def together_def fun_eq_iff)
  ultimately show "sock_reach f together" by simp
  from sock_reach.step [OF \<open>sock_reach f s1\<close> sock_step.tests [of s1 "\<not> w"]]
  have "sock_reach f s2" by (simp add: s1_def s2_def peer_off_def ROUNDS_def)
  from sock_reach.step [OF this sock_step.sends [of s2 "\<not> w"]]
  have "sock_reach f (send_step (\<not> w) s2)" by (simp add: s2_def)
  moreover have "send_step (\<not> w) s2 = s3"
    by (auto simp: send_step_def s2_def s3_def fun_eq_iff peer_off_def)
  ultimately have "sock_reach f s3" by simp
  from sock_reach.step [OF this sock_step.arrives [of s3 w 0 "[]"]]
  have "sock_reach f (arrive_step w 0 [] s3)" by (simp add: s3_def peer_off_def)
  moreover have "arrive_step w 0 [] s3 = s4"
    by (auto simp: arrive_step_def s3_def s4_def fun_eq_iff peer_off_def listening_def)
  ultimately have "sock_reach f s4" by simp
  from sock_reach.step [OF this sock_step.begins [of s4 w]]
  have "sock_reach f (s4(w := peer_off\<lparr>pc := Test\<rparr>))" by (simp add: s4_def peer_off_def)
  moreover have "s4(w := peer_off\<lparr>pc := Test\<rparr>) = late w"
    by (auto simp: s4_def late_def fun_eq_iff)
  ultimately show "sock_reach f (late w)" by simp
qed

section \<open>Every run on a reliable network ends\<close>

definition peer_rank :: "peer \<Rightarrow> nat" where
  "peer_rank m = 5 * (ROUNDS + 1 - rounds m)
     + (case pc m of Off \<Rightarrow> 5 | Test \<Rightarrow> 4 | Send \<Rightarrow> 3 | Recv \<Rightarrow> 1 | Done \<Rightarrow> 0) + length (wire m)"

definition sock_rank :: "peers \<Rightarrow> nat" where
  "sock_rank s = peer_rank (s False) + peer_rank (s True)"

lemma sock_rank_at: "sock_rank s = peer_rank (s p) + peer_rank (s (\<not> p))"
  by (cases p) (simp_all add: sock_rank_def)

lemma sock_step_rank:
  assumes "sock_step False s t" and "\<forall>p. pc (s p) \<noteq> Off \<and> rounds (s p) \<le> ROUNDS"
  shows "sock_rank t < sock_rank s"
  using assms(1)
proof cases
  case (begins p)
  with assms(2) show ?thesis by simp
next
  case (tests p)
  then show ?thesis unfolding sock_rank_at [of _ p] by (simp add: peer_rank_def)
next
  case (sends p)
  then show ?thesis
    unfolding sock_rank_at [of _ p] by (simp add: step_peers) (simp add: peer_rank_def sent_to_def)
next
  case (receives p v vs)
  have "rounds (s p) \<le> ROUNDS" using assms(2) by blast
  with receives show ?thesis
    unfolding sock_rank_at [of _ p] by (simp add: step_peers) (simp add: peer_rank_def received_def)
next
  case (arrives p v vs)
  then show ?thesis
    unfolding sock_rank_at [of _ p] by (simp add: step_peers) (simp add: peer_rank_def arrived_def)
qed simp_all

lemma at_rest:
  assumes "\<nexists>t. sock_step False s t" and "pc (s p) \<noteq> Off"
  shows "wire (s p) = [] \<and> (pc (s p) = Done \<or> pc (s p) = Recv \<and> inbox (s p) = [])"
proof
  show "wire (s p) = []"
    using assms(1) sock_step.arrives [of s p] by (cases "wire (s p)") auto
  show "pc (s p) = Done \<or> pc (s p) = Recv \<and> inbox (s p) = []"
    using assms sock_step.tests [of s p] sock_step.sends [of s p] sock_step.receives [of s p]
    by (cases "pc (s p)"; cases "inbox (s p)"; blast)
qed

lemma lockstep_rest:
  assumes "lockstep s" and "\<nexists>t. sock_step False s t"
  shows "pc (s p) = Done \<and> rounds (s p) = ROUNDS"
proof -
  have ok: "lock_ok (s p) (s (\<not> p))" "lock_ok (s (\<not> p)) (s p)"
    using lockstepD [OF assms(1), of p] by simp_all
  have off: "pc (s p) \<noteq> Off" "pc (s (\<not> p)) \<noteq> Off" using ok by (simp_all add: lock_ok_def)
  note rest = at_rest [OF assms(2) off(1)] at_rest [OF assms(2) off(2)]
  have "pc (s p) = Done"
  proof (rule ccontr)
    assume np: "pc (s p) \<noteq> Done"
    then have recv: "pc (s p) = Recv" "queue (s p) = []" using rest(1) by (auto simp: queue_def)
    then have "rounds (s p) < ROUNDS" "sent (s (\<not> p)) = rounds (s p)"
      using ok(1) by (auto simp: lock_ok_def)
    moreover from this have "pc (s (\<not> p)) \<noteq> Done" using ok(2) by (auto simp: lock_ok_def sent_def)
    then have "pc (s (\<not> p)) = Recv" "queue (s (\<not> p)) = []" using rest(2) by (auto simp: queue_def)
    then have "sent (s p) \<le> rounds (s (\<not> p))" "sent (s (\<not> p)) = rounds (s (\<not> p)) + 1"
      using ok(2) by (auto simp: lock_ok_def sent_def)
    ultimately show False using recv(1) by (simp add: sent_def)
  qed
  with ok(1) show ?thesis by (simp add: lock_ok_def)
qed

lemma token_rest:
  assumes "token_ok (s (\<not> w)) (s w)" and "\<nexists>t. sock_step False s t"
  shows "pc (s w) = Done \<and> 2 * rounds (s w) = ROUNDS \<and> pc (s (\<not> w)) = Recv \<and> queue (s (\<not> w)) = []"
proof -
  have "pc (s w) \<noteq> Off" "pc (s (\<not> w)) \<noteq> Off" "pc (s (\<not> w)) \<noteq> Done"
    using assms(1) by (simp_all add: token_ok_def)
  with at_rest [OF assms(2), of w] at_rest [OF assms(2), of "\<not> w"] assms(1) show ?thesis
    by (auto simp: token_ok_def sent_def sent_odd_def queue_def)
qed

text \<open>A token that is lost on its way leaves both programs at \<open>recv\<close>.\<close>

lemma token_lost:
  assumes "token_ok (s (\<not> w)) (s w)" and "wire (s p) \<noteq> []"
  shows "\<forall>q. pc (s q) = Recv" and "\<nexists>t. sock_step False (s(p := (s p)\<lparr>wire := []\<rparr>)) t"
proof -
  have "queue (s (\<not> w)) \<noteq> [] \<or> queue (s w) \<noteq> []"
    using assms(2) by (cases "p = w") (auto simp: queue_def)
  from token_on_wire [OF assms(1) this]
  have both: "\<forall>q. pc (s q) = Recv" and "length (queue (s p)) + length (queue (s (\<not> p))) = 1"
    unfolding bool_all [where q = w] by (cases "p = w"; auto)+
  then have empty: "inbox (s p) = []" "inbox (s (\<not> p)) = []" "wire (s (\<not> p)) = []"
    using assms(2) by (cases "inbox (s p)"; cases "wire (s p)"; auto simp: queue_def)+
  show "\<forall>q. pc (s q) = Recv" by (rule both)
  have at: "pc ((s(p := (s p)\<lparr>wire := []\<rparr>)) q) = Recv \<and> inbox ((s(p := (s p)\<lparr>wire := []\<rparr>)) q) = []
      \<and> wire ((s(p := (s p)\<lparr>wire := []\<rparr>)) q) = []" for q
    using both empty by (cases "q = p") auto
  show "\<nexists>t. sock_step False (s(p := (s p)\<lparr>wire := []\<rparr>)) t"
  proof
    assume "\<exists>t. sock_step False (s(p := (s p)\<lparr>wire := []\<rparr>)) t"
    then obtain t where "sock_step False (s(p := (s p)\<lparr>wire := []\<rparr>)) t" ..
    then show False by cases (use at in \<open>auto simp del: fun_upd_apply\<close>)
  qed
qed

section \<open>A run in lockstep\<close>

text \<open>Both programs at the loop test after \<open>n\<close> rounds in lockstep, and after the last round.\<close>

definition round_start :: "nat \<Rightarrow> peer" where
  "round_start n = \<lparr>pc = Test, count_s = int n, count_r = int (n - 1), rounds = n, inbox = [], wire = []\<rparr>"

definition both_ended :: peers where
  "both_ended = (\<lambda>_. (round_start ROUNDS)\<lparr>pc := Done\<rparr>)"

lemma round_start_run: "n \<le> ROUNDS \<Longrightarrow> (sock_step f)\<^sup>*\<^sup>* together (\<lambda>_. round_start n)"
proof (induction n)
  case 0
  have "together = (\<lambda>_. round_start 0)" by (simp add: together_def fun_eq_iff round_start_def peer_off_def)
  then show ?case by simp
next
  case (Suc n)
  define u where "u c q x = \<lparr>pc = c, count_s = int n, count_r = int (n - 1), rounds = n, inbox = q, wire = x\<rparr>" for c q x
  define v where "v = round_start (Suc n)"
  define mk where "mk a b = (\<lambda>p. if p then b else a)" for a b :: peer
  define R where "R = (sock_step f)\<^sup>*\<^sup>* together"
  have upd: "(mk a b)(False := c) = mk c b" "(mk a b)(True := c) = mk a c" for a b c
    by (auto simp: mk_def fun_eq_iff)
  have at: "mk a b False = a" "mk a b True = b" for a b by (simp_all add: mk_def)
  have go: "R s \<Longrightarrow> sock_step f s t \<Longrightarrow> R t" for s t
    unfolding R_def by (rule rtranclp.rtrancl_into_rtrancl)
  note st = u_def v_def at send_step_def recv_step_def next_round_def arrive_step_def listening_def upd round_start_def
  have "(\<lambda>_. round_start n) = mk (u Test [] []) (u Test [] [])" by (simp add: mk_def u_def round_start_def fun_eq_iff)
  with Suc have "R (mk (u Test [] []) (u Test [] []))" by (simp add: R_def)
  from go [OF this sock_step.tests [of _ False]] Suc.prems
  have "R (mk (u Send [] []) (u Test [] []))" by (simp add: st)
  from go [OF this sock_step.tests [of _ True]] Suc.prems
  have "R (mk (u Send [] []) (u Send [] []))" by (simp add: st)
  from go [OF this sock_step.sends [of _ False]]
  have "R (mk (u Recv [] []) (u Send [] [int n]))" by (simp add: st)
  from go [OF this sock_step.sends [of _ True]]
  have "R (mk (u Recv [] [int n]) (u Recv [] [int n]))" by (simp add: st)
  from go [OF this sock_step.arrives [of _ False]]
  have "R (mk (u Recv [int n] []) (u Recv [] [int n]))" by (simp add: st)
  from go [OF this sock_step.arrives [of _ True]]
  have "R (mk (u Recv [int n] []) (u Recv [int n] []))" by (simp add: st)
  from go [OF this sock_step.receives [of _ False]]
  have "R (mk v (u Recv [int n] []))" by (simp add: st add.commute)
  from go [OF this sock_step.receives [of _ True]]
  have "R (mk v v)" by (simp add: st add.commute)
  moreover have "mk v v = (\<lambda>_. round_start (Suc n))" by (simp add: mk_def v_def fun_eq_iff)
  ultimately show ?case by (simp add: R_def)
qed

lemma both_ended_run: "(sock_step f)\<^sup>*\<^sup>* together both_ended"
proof -
  define e where "e = (round_start ROUNDS)\<lparr>pc := Done\<rparr>"
  define s where "s = (\<lambda>_::bool. round_start ROUNDS)"
  have go: "(sock_step f)\<^sup>*\<^sup>* together x \<Longrightarrow> sock_step f x y \<Longrightarrow> (sock_step f)\<^sup>*\<^sup>* together y" for x y
    by (rule rtranclp.rtrancl_into_rtrancl)
  have "(sock_step f)\<^sup>*\<^sup>* together s" unfolding s_def by (rule round_start_run) simp
  from go [OF this sock_step.tests [of s False]]
  have "(sock_step f)\<^sup>*\<^sup>* together (s(False := e))" by (simp add: s_def e_def round_start_def)
  from go [OF this sock_step.tests [of _ True]]
  have "(sock_step f)\<^sup>*\<^sup>* together (s(False := e, True := e))" by (simp add: s_def e_def round_start_def)
  moreover have "s(False := e, True := e) = both_ended"
    by (simp add: both_ended_def e_def fun_eq_iff)
  ultimately show ?thesis by simp
qed

lemma both_ended_fields: "pc (both_ended p) = Done" "rounds (both_ended p) = 2000000" "wire (both_ended p) = []"
  by (simp_all add: both_ended_def round_start_def ROUNDS_def)

section \<open>Properties\<close>

text \<open>
  Property C37: what a program prints when its loop ends (\<open>i\<close>, \<open>*count_s\<close>, \<open>*count_r\<close>), on every
  network: whatever datagrams are lost, duplicated, reordered or delayed, whichever calls of \<open>sendto\<close>
  and \<open>recv\<close> fail, and in whatever order the programs start, it prints 2000000 and 1999999 for the
  counters and at least 1000000 for the rounds, the number recorded in \<open>results_10g.txt\<close>.
\<close>

theorem sock_results:
  assumes "sock_reach faulty s" and "pc (s p) = Done"
  shows "count_s (s p) = 2000000 \<and> count_r (s p) = 1999999 \<and> 1000000 \<le> rounds (s p)"
  using counts_okD [OF counts_reach [OF assms(1)], of p] assms(2)
  by (auto simp: count_ok_def counters_ok_def ROUNDS_def split: if_splits)

theorem sock_results_witness:
  "sock_reach True both_ended \<and> pc (both_ended True) = Done
    \<and> count_s (both_ended True) = 2000000 \<and> count_r (both_ended True) = 1999999"
proof -
  have reach: "sock_reach True both_ended" by (rule sock_reach_steps [OF both_ended_run starts_reach(1)])
  show ?thesis
    using sock_results [OF reach both_ended_fields(1) [of True]] reach both_ended_fields(1) [of True] by simp
qed

text \<open>
  Property C38: on a network that delivers every datagram in order, and while no call fails, the
  benchmark comes to rest, and the order of starting decides how.  Every step strictly decreases a
  measure.  If both programs are at their loops before the first datagram is sent, both end, after
  2000000 rounds.  If the first datagram of one is lost because the other program had not started,
  the later program ends after 1000000 rounds and the first waits at \<open>recv\<close> for a datagram nobody
  will send.  In that case the benchmark depends on a single datagram at a time: one that is lost on
  its way leaves both programs waiting at \<open>recv\<close>.
\<close>

theorem sock_comes_to_rest:
  assumes "(sock_step False)\<^sup>*\<^sup>* s0 s" and "s0 = together \<or> s0 = late w"
  shows "(\<forall>t. sock_step False s t \<longrightarrow> sock_rank t < sock_rank s)
    \<and> (s0 = together \<longrightarrow> (\<nexists>t. sock_step False s t) \<longrightarrow> (\<forall>p. pc (s p) = Done \<and> rounds (s p) = 2000000))
    \<and> (s0 = late w \<longrightarrow> (\<nexists>t. sock_step False s t) \<longrightarrow>
        pc (s w) = Done \<and> rounds (s w) = 1000000
        \<and> pc (s (\<not> w)) = Recv \<and> inbox (s (\<not> w)) = [] \<and> wire (s (\<not> w)) = [])
    \<and> (s0 = late w \<longrightarrow> (\<forall>p. wire (s p) \<noteq> [] \<longrightarrow>
        (\<forall>q. pc (s q) = Recv) \<and> (\<nexists>t. sock_step False (s(p := (s p)\<lparr>wire := []\<rparr>)) t)))"
proof (intro conjI impI allI)
  have lock: "s0 = together \<Longrightarrow> lockstep s" and token: "s0 = late w \<Longrightarrow> token_ok (s (\<not> w)) (s w)"
    using assms(1) lockstep_start token_start by blast+
  have "\<forall>p. pc (s p) \<noteq> Off \<and> rounds (s p) \<le> ROUNDS"
    using assms(2)
  proof
    assume "s0 = together"
    from lockstepD [OF lock [OF this]] show ?thesis by (simp add: lock_ok_def)
  next
    assume "s0 = late w"
    from token [OF this] show ?thesis
      unfolding bool_all [where q = w] by (auto simp: token_ok_def sent_def ROUNDS_def split: if_splits)
  qed
  then show "sock_rank t < sock_rank s" if "sock_step False s t" for t
    using sock_step_rank [OF that] by blast
  show "pc (s p) = Done" "rounds (s p) = 2000000" if "s0 = together" "\<nexists>t. sock_step False s t" for p
    using lockstep_rest [OF lock [OF that(1)] that(2), of p] by (simp_all add: ROUNDS_def)
  show "pc (s w) = Done" "rounds (s w) = 1000000" "pc (s (\<not> w)) = Recv" "inbox (s (\<not> w)) = []" "wire (s (\<not> w)) = []"
    if "s0 = late w" "\<nexists>t. sock_step False s t"
    using token_rest [OF token [OF that(1)] that(2)] by (simp_all add: ROUNDS_def queue_def)
  show "pc (s q) = Recv" if "s0 = late w" "wire (s p) \<noteq> []" for p q
    using token_lost(1) [OF token [OF that(1)] that(2)] by blast
  show "\<nexists>t. sock_step False (s(p := (s p)\<lparr>wire := []\<rparr>)) t" if "s0 = late w" "wire (s p) \<noteq> []" for p
    using token_lost(2) [OF token [OF that(1)] that(2)] by blast
qed

theorem sock_comes_to_rest_witness:
  "(\<nexists>t. sock_step False both_ended t) \<and> (\<forall>p. pc (both_ended p) = Done \<and> rounds (both_ended p) = 2000000)"
proof -
  have "\<nexists>t. sock_step False both_ended t"
    by (auto elim!: sock_stepE simp: both_ended_fields)
  with sock_comes_to_rest [OF both_ended_run] show ?thesis by auto
qed

end
