(* ===== verification/Spec2Isabelle.thy ===== *)
theory Spec2Isabelle
  imports Lifecycle Pp_Setup Config_Store Virt2phys Rmem Kc705_Client Net_Server Rom_Search Sock_Pingpong
begin

text \<open>
  \<^bold>\<open>Verification development of the IP-NUMA software.\<close>

  IP-NUMA makes the memory of one PC writable from another over Ethernet.  A PC holds an FPGA board
  on PCI Express.  Stores to the board's second window (BAR 2) are wrapped into UDP datagrams and
  sent to the partner board, which repeats them as writes on its own PCI Express bus.  The first
  window (BAR 0) holds the board's registers: its own and its partner's IPv4 address and MAC, and
  the upper part of the remote physical address.  A Linux driver gives user programs those registers
  by ioctl, and also the physical address of a page of theirs.  The programs of the
  repository set up a board, run benchmarks and memory tests over it, or make write requests
  themselves and send them from an ordinary network card.

  \<^bold>\<open>The theories, and what they model of \<open>src/\<close>\<close>

  \<^item> \<open>Prelude\<close>: the C integer types of x86-64 Linux as words, their little-endian bytes, and a byte
    memory \<open>u64 => byte option\<close> in which an access to an unmapped address is a failure.
  \<^item> \<open>Mmio\<close>: register windows.  \<open>Boards\<close>: the register files of the two boards, written from
    \<open>boards/ecp3versa/rtl/ecp3/ipnuma.v\<close>, \<open>boards/kc705/rtl/pcie/PIO_EP_MEM_ACCESS.v\<close> and
    \<open>PIO_RX_SNOOP.v\<close>, as the counterpart the driver runs against.
  \<^item> \<open>V2p\<close>: \<open>any_v2p\<close>, in \<open>software/driver/virt2phys.h\<close> and again in
    \<open>software/virt2phys/virt2phys.c\<close>.
  \<^item> \<open>Driver\<close>: \<open>software/driver/ipnuma.c\<close> and \<open>ipnuma_ioctl.h\<close>: the command codes, the file
    operations and the interrupt handler.  The record \<open>drv\<close> holds the file-scope variables of
    \<open>ipnuma.c\<close>; \<open>kstate\<close> adds the memory of the calling process and the board.
    \<open>File_Ops\<close> puts the operations together as calls on an open file.
  \<^item> \<open>Lifecycle\<close>: \<open>ipnuma_init_one\<close>, \<open>ipnuma_remove_one\<close>, \<open>ipnuma_init\<close> and \<open>ipnuma_cleanup\<close>.  Probe and
    removal yield the trace of what the code does, in its order: each kernel resource taken or
    returned, and each assignment to the driver's variables.  The step relation \<open>sys_step\<close> runs such
    a trace event by event, in a machine with any set of boards, with files being opened, closed and
    used between any two events.
  \<^item> \<open>Registers\<close>, \<open>Config_Store\<close>: the driver on a board.
  \<^item> \<open>Programs\<close>: what user programs share (stores to their variables, requests that end them).
    \<open>Numa_Report\<close>: \<open>software/driver/user.c\<close>.  \<open>Virt2phys\<close>: the module
    \<open>software/virt2phys/virt2phys.c\<close> and its \<open>user.c\<close>.  \<open>Mem_Tests\<close>: \<open>mem.c\<close>, \<open>demo1.c\<close> and
    \<open>user.c\<close> of \<open>software/kc705_test\<close>.  \<open>Rmem\<close>: \<open>rmem.c\<close> there.
  \<^item> \<open>Pp_Setup\<close>, \<open>Pingpong\<close>: \<open>software/pingpong/ipnuma_pingpong.c\<close>, its \<open>init_numa\<close> and \<open>main\<close> up to
    the loops, and the loops.  \<open>Sock_Pingpong\<close>: \<open>socket_pingpong.c\<close>.
  \<^item> \<open>Clib\<close>: \<open>strtol\<close>, \<open>atoi\<close>, \<open>strcpy\<close>, sockets, and the record of what a program prints and sends.
  \<^item> \<open>Ecp3_Client\<close>: \<open>ipnuma_client.c\<close>, \<open>a32.c\<close> and \<open>a64.c\<close> of \<open>software/ecp3_test\<close>, against
    \<open>Ecp3_Server\<close>, the state machine \<open>boards/ecp3versa/rtl/ecp3/server.v\<close> (present in the board when
    it is built with \<open>ENABLE_SERVER\<close>).
  \<^item> \<open>Kc705_Client\<close>: \<open>software/kc705_test/ipnuma_client.c\<close>, against \<open>Kc705_Rx\<close>, the receive engine
    \<open>boards/kc705/rtl/pcie/XGMII_RX_ENGINE.v\<close>.  \<open>Net_Server\<close>: both copies of \<open>ipnuma_server.c\<close>.
  \<^item> \<open>Rom_Search\<close>: \<open>software/biosrom/SEARCH_C.C\<close>, a DOS program with 16-bit integers, far
    pointers and characters without a sign (as in the build in the repository).

  \<^bold>\<open>How the code is represented\<close>

  Integers keep their C width, and wrap.  A kernel fault is a \<open>kfault\<close> on the left of a sum; the
  negative results of the kernel and of system calls are integers; a user program is a list of
  events (\<open>io_event\<close>) and a way to end (\<open>run_end\<close>: an exit status, an overrun buffer, or still
  running).  The local \<open>paddr\<close> of \<open>any_v2p\<close> and the locals of the clients that an argument would
  set have no initial value in C: they are arguments called \<open>junk\<close>, and the theorems hold for every
  value of them.  An endless loop that sends or prints takes the number of rounds to run, and its
  theorems hold for every number.  A loop of two programs that wait for each other is a step
  relation: \<open>pp_step\<close> makes every access to the volatile cell, every arrival and, when \<open>lossy\<close>,
  every loss a step of its own; in \<open>sock_step\<close> datagrams arrive in order, in steps of their own, and
  when \<open>faulty\<close> they are also lost, duplicated and reordered and \<open>sendto\<close> and \<open>recv\<close> fail.  A frame
  on the wire is the headers, the payload and a trailer of arbitrary bytes for padding and checksum.

  \<^bold>\<open>Interfaces\<close>

  \<^item> \<open>mmio_window\<close> (\<open>Mmio\<close>): a window where some offsets are plain storage; interpreted on the register
    files of both boards (\<open>ecp3\<close>, \<open>kc705\<close> in \<open>Boards\<close>).
  \<^item> \<open>config_window\<close> (\<open>Config_Store\<close>), which extends it: the parameters at the driver's offsets are
    plain; interpreted on the ECP3 for all four, on the KC705 for the two IPv4 addresses only.
  \<^item> \<open>ioc_encoding\<close> (\<open>Driver\<close>): the kernel's \<open>_IOC\<close> keeps the command numbers apart; interpreted on the
    layout of \<open>asm-generic/ioctl.h\<close>.
  \<^item> \<open>kernel_paging\<close> (\<open>V2p\<close>): documented behaviour of the page-table helpers; interpreted on the
    x86 paging of four levels.

  \<^bold>\<open>What is shown\<close>

  \<^item> Translation: both copies of the walk equal a reference over the list of levels; exactly when the
    result is indeterminate; a page is translated as a whole; the module and the driver agree, and
    so does what the program over the module prints.
  \<^item> Driver: which requests complete; what no sequence of calls can change; what each SET leaves in
    the registers of each board, bit by bit; sequences of address requests refine a store of four
    byte strings; the ledger of a probe that succeeds, that fails, and of a removal; with one
    board no request dereferences null while the device is registered and no removal runs; a removal
    comes to a point where the file can still be opened and requests do; and the failed probe of a
    second board takes the first one's registers away.
  \<^item> Benchmarks: setup of both boards and where the remote stores go; in the loops at most one store
    in flight, the final counters, that the server ends, and that one lost store stops both for
    ever.  For the socket version bounds on what is printed, on every network; and on a network that delivers
    everything in order, while no call fails, that it comes to rest, and how for each order of
    starting.
  \<^item> Clients and boards: whatever a client sends is what the board queues, for all modes, for any
    number of rounds and for the blast; frames that are not meant for the ECP3 board are ignored up to 4096
    bytes; beyond that its byte counter wraps and the filter can be passed.
  \<^item> Small programs: the reports, the memory patterns and frames, the remote-memory program, and the
    ROM search, which finds the first block that is the board's ROM.

  \<^bold>\<open>Bounds and measures\<close>

  \<open>PP_LIMIT\<close> and \<open>ROUNDS\<close> are the 2000000 rounds of the two benchmarks.  \<open>pp_rank\<close> counts what is
  left of the ping-pong (below 96 million at the start) and falls with every step that is not a
  spin of a poll loop; \<open>sock_rank\<close> falls with every step of the socket version on a reliable network.
  The ECP3 results hold for frames of up to 4096 bytes with their checksum, the range of the board's
  counter; Ethernet frames have at most 1518.  The ROM search ends after at most 512
  blocks.  The receive engine is run on all beats of a frame and on whatever follows it.

  \<^bold>\<open>Parameters\<close>

  The kernel's services (the records \<open>pt_env\<close>, \<open>probe_env\<close>, \<open>ioc_abi\<close>), the results of \<open>open\<close>,
  \<open>mmap\<close>, \<open>socket\<close> and \<open>sendto\<close> (\<open>mem_world\<close>, \<open>pp_world\<close>, \<open>net_env\<close>), the addresses of the
  programs' variables, and what the user types.  Theorems about a program on a board assume that its
  variables are mapped and apart.  Every property with hypotheses is followed by a witness, an
  instance in which they all hold.

  \<^bold>\<open>Assumptions of the machines\<close>

  The PCI core runs one probe or removal at a time.  A request that faults stops the machine.  In the
  benchmarks each program sends to the other only, and nobody else sends to them.

  \<^bold>\<open>Not modelled\<close>

  \<^item> \<open>software/pingpong/util.c\<close> and \<open>util.h\<close>: differences of \<open>gettimeofday\<close> in floating point, printed
    for the user; nothing depends on them.
  \<^item> In \<open>ipnuma.c\<close> the table of device numbers, and the log lines other than those of the page-table
    walk.
  \<^item> In the programs: the final \<open>munmap\<close> and \<open>close\<close>, the text printed by \<open>ipnuma_pingpong.c\<close>, the
    times printed by both benchmarks, and the cache flushes of the loops, which only order the
    stores that the step relation keeps in order anyway.
  \<^item> The Verilog apart from the decoders and state machines named above: Ethernet and PCI Express
    data paths, vendor cores and generated files.  In \<open>Kc705_Rx\<close> the build without \<open>ORF\<close> is
    modelled, and the PCI Express core always takes the beats it is given; in \<open>Ecp3_Server\<close> the
    FIFO delivers a frame without a gap.
  \<^item> The 8086 assembly of \<open>software/biosrom\<close>, its binaries, and all scripts and Makefiles.
\<close>

end
